theory Spec2Isabelle
  imports Complex_Main
begin

section \<open>Threader AI: the Reddit collector (src/scrapers/redditScraper.js)\<close>

text \<open>
  The collector is JavaScript. Its functions are asynchronous and talk to the network,
  read the clock and sleep. In this embedding
  \<^item> a promise is a value of \<open>js_error + 'a\<close>: \<open>Inl\<close> is a rejection (a \<open>throw\<close>),
    \<open>Inr\<close> a fulfilment;
  \<^item> the network is a script \<open>env :: nat \<Rightarrow> http_response\<close>: the answer to the
    \<open>n\<close>-th call of \<open>fetch\<close> of the run. Every theorem holds for every script, hence
    for every server behaviour. Request URLs and headers are not modelled;
  \<^item> the state of a run is a \<open>world\<close>: how many requests were made and which sleeps
    were taken, in order;
  \<^item> the clock is a parameter: \<open>oneDayAgoTimestamp\<close> (the start of the window, in
    seconds) and \<open>now\<close> (the time value, in milliseconds, that \<open>scrapedAt\<close> renders);
  \<^item> a JSON number is a rational (\<open>rat\<close>): the rounding of IEEE doubles is not
    modelled;
  \<^item> an ISO date string is represented by the time value (an integer number of
    milliseconds) it renders.
\<close>

subsection \<open>JavaScript values\<close>

text \<open>
  A property of an object is absent (\<open>Undefined\<close>), \<open>null\<close> or holds a value of the
  type that the Reddit schema gives it.
\<close>

datatype 'a field = Undefined | Null | Val 'a

type_synonym number = rat

datatype js_error =
    FetchFailed
  | HttpError nat
  | SyntaxError
  | TypeError
  | RangeError

text \<open>Truthiness, as \<open>||\<close>, \<open>!\<close> and \<open>? :\<close> test it: the empty string and 0 are falsy.\<close>

definition truthy_string :: "string field \<Rightarrow> bool" where
  "truthy_string f = (case f of Val s \<Rightarrow> s \<noteq> [] | _ \<Rightarrow> False)"

definition truthy_number :: "number field \<Rightarrow> bool" where
  "truthy_number f = (case f of Val n \<Rightarrow> n \<noteq> 0 | _ \<Rightarrow> False)"

text \<open>\<open>f || d\<close> for a string default, \<open>f || null\<close>, and the same for numbers.\<close>

definition string_or :: "string field \<Rightarrow> string \<Rightarrow> string" where
  "string_or f d = (case f of Val s \<Rightarrow> (if s = [] then d else s) | _ \<Rightarrow> d)"

definition string_or_null :: "string field \<Rightarrow> string option" where
  "string_or_null f = (case f of Val s \<Rightarrow> (if s = [] then None else Some s) | _ \<Rightarrow> None)"

definition number_or :: "number field \<Rightarrow> number \<Rightarrow> number" where
  "number_or f d = (case f of Val n \<Rightarrow> (if n = 0 then d else n) | _ \<Rightarrow> d)"

definition number_or_null :: "number field \<Rightarrow> number option" where
  "number_or_null f = (case f of Val n \<Rightarrow> (if n = 0 then None else Some n) | _ \<Rightarrow> None)"

text \<open>A template literal \<open>`${f}`\<close> prints an absent property as \<open>undefined\<close>.\<close>

definition template :: "string field \<Rightarrow> string" where
  "template f = (case f of Undefined \<Rightarrow> ''undefined'' | Null \<Rightarrow> ''null'' | Val s \<Rightarrow> s)"

text \<open>
  \<open>f >= t\<close> for a number \<open>t\<close>: an absent property converts to NaN, which compares
  false; \<open>null\<close> converts to 0.
\<close>

definition js_ge :: "number field \<Rightarrow> int \<Rightarrow> bool" where
  "js_ge f t = (case f of Undefined \<Rightarrow> False | Null \<Rightarrow> t \<le> 0 | Val c \<Rightarrow> of_int t \<le> c)"

text \<open>
  \<open>new Date(t).toISOString()\<close>: the constructor clips the time value to an integer
  (towards zero); beyond 8.64e15 ms the date is invalid and \<open>toISOString\<close> throws a
  RangeError.
\<close>

definition trunc :: "number \<Rightarrow> int" where
  "trunc t = (if 0 \<le> t then \<lfloor>t\<rfloor> else \<lceil>t\<rceil>)"

definition toISOString :: "number \<Rightarrow> js_error + int" where
  "toISOString t = (if 8640000000000000 < \<bar>t\<bar> then Inl RangeError else Inr (trunc t))"

subsection \<open>The JSON that Reddit returns\<close>

record raw_item =
  id' :: "string field"
  url :: "string field"
  permalink :: "string field"
  title :: "string field"
  selftext :: "string field"
  body :: "string field"
  author :: "string field"
  subreddit :: "string field"
  score :: "number field"
  ups :: "number field"
  num_comments :: "number field"
  upvote_ratio :: "number field"
  link_flair_text :: "string field"
  created_utc :: "number field"

text \<open>An element of \<open>children\<close>: \<open>{kind, data}\<close>. An array element can be \<open>null\<close> (\<open>None\<close>).\<close>

record child =
  kind :: "string field"
  data :: "raw_item field"

record listing_data =
  children :: "child option list field"
  after :: "string field"

text \<open>
  A response body: \<open>null\<close>, an object (of which the code reads only the property
  \<open>data\<close>), or an array (the comments endpoint returns \<open>[post, comments]\<close>).
\<close>

datatype json_body =
    JNull
  | JObject "listing_data field"
  | JArray "json_body list"

subsection \<open>The network and the state of a run\<close>

text \<open>
  \<open>fetch\<close> rejects (\<open>Rejected\<close>) or resolves to a response with a status and a body;
  the body is \<open>None\<close> when it is not JSON, so that \<open>response.json()\<close> rejects.
\<close>

datatype http_response =
    Rejected
  | Response nat "json_body option"

datatype event = Jitter | Sleep nat

record world =
  requests :: nat
  sleeps :: "event list"

definition sleep :: "event \<Rightarrow> world \<Rightarrow> world" where
  "sleep e w = w\<lparr>sleeps := sleeps w @ [e]\<rparr>"

definition fetch :: "(nat \<Rightarrow> http_response) \<Rightarrow> world \<Rightarrow> http_response \<times> world" where
  "fetch env w = (env (requests w), w\<lparr>requests := Suc (requests w)\<rparr>)"

definition RATE_LIMIT_DELAY :: nat where
  "RATE_LIMIT_DELAY = 2000"

subsection \<open>fetchRedditJson\<close>

text \<open>
  The loop \<open>for (attempt = 1; attempt <= retries; attempt++)\<close>. A 429 or a 403 sleeps
  and continues, also on the last attempt, after which the loop ends and the function
  returns \<open>undefined\<close> (\<open>Inr None\<close>). A rejected \<open>fetch\<close> and a status that is not ok are
  thrown into the \<open>catch\<close>, which rethrows on the last attempt and sleeps 5 s otherwise.
  \<open>return response.json()\<close> is not awaited inside the \<open>try\<close>: a body that is not JSON
  rejects the call at once.
\<close>

function fetchRedditJson_from ::
  "(nat \<Rightarrow> http_response) \<Rightarrow> nat \<Rightarrow> nat \<Rightarrow> world \<Rightarrow> (js_error + json_body option) \<times> world"
where
  "fetchRedditJson_from env retries attempt w =
     (if attempt \<le> retries then
        (case fetch env (sleep Jitter w) of
           (Rejected, w') \<Rightarrow>
             if attempt = retries then (Inl FetchFailed, w')
             else fetchRedditJson_from env retries (Suc attempt) (sleep (Sleep 5000) w')
         | (Response st b, w') \<Rightarrow>
             if st = 429 then
               fetchRedditJson_from env retries (Suc attempt) (sleep (Sleep 30000) w')
             else if st = 403 then
               fetchRedditJson_from env retries (Suc attempt) (sleep (Sleep 10000) w')
             else if \<not> (200 \<le> st \<and> st \<le> 299) then
               (if attempt = retries then (Inl (HttpError st), w')
                else fetchRedditJson_from env retries (Suc attempt) (sleep (Sleep 5000) w'))
             else
               (case b of None \<Rightarrow> (Inl SyntaxError, w') | Some j \<Rightarrow> (Inr (Some j), w')))
      else (Inr None, w))"
  by pat_completeness auto
termination
  by (relation "measure (\<lambda>(env, retries, attempt, w). Suc retries - attempt)") auto

declare fetchRedditJson_from.simps [simp del]

definition fetchRedditJson ::
  "(nat \<Rightarrow> http_response) \<Rightarrow> nat \<Rightarrow> world \<Rightarrow> (js_error + json_body option) \<times> world"
where
  "fetchRedditJson env retries w = fetchRedditJson_from env retries 1 w"

text \<open>The default of the parameter \<open>retries\<close>; every call in the file uses it.\<close>

definition default_retries :: nat where
  "default_retries = 3"

subsection \<open>normalizeRedditItem\<close>

record analysis =
  category :: "string option"
  userSegment :: "string option"
  impactType :: "string option"
  urgency :: "string option"
  sentiment :: "string option"

record comment =
  id' :: "string field"
  body :: "string field"
  author :: "string field"
  upvotes :: number
  createdAt :: "int option"

record feedback =
  source :: string
  sourceId :: "string field"
  sourceUrl :: string
  title :: "string option"
  body :: string
  author :: string
  subreddit :: "string field"
  upvotes :: number
  commentCount :: number
  upvoteRatio :: "number option"
  flair :: "string option"
  createdAt :: "int option"
  scrapedAt :: int
  companyName :: string
  analysis :: analysis
  comments :: "comment list"

text \<open>
  The expression \<open>t ? new Date(t * 1000).toISOString() : null\<close>, which
  \<open>normalizeRedditItem\<close> and \<open>fetchPostComments\<close> both apply to \<open>created_utc\<close>.
\<close>

definition isoOrNull :: "number field \<Rightarrow> js_error + int option" where
  "isoOrNull f =
     (case f of
        Val c \<Rightarrow>
          if c = 0 then Inr None
          else (case toISOString (c * 1000) of Inl e \<Rightarrow> Inl e | Inr ms \<Rightarrow> Inr (Some ms))
      | _ \<Rightarrow> Inr None)"

text \<open>\<open>scrapedAt\<close> reads the clock: \<open>now\<close> is the time value read.\<close>

definition normalizeRedditItem :: "raw_item \<Rightarrow> string \<Rightarrow> int \<Rightarrow> js_error + feedback" where
  "normalizeRedditItem item company now =
     (case isoOrNull (created_utc item) of
        Inl e \<Rightarrow> Inl e
      | Inr created \<Rightarrow>
          Inr \<lparr>source = ''reddit'',
               sourceId = raw_item.id' item,
               sourceUrl = string_or (url item) (''https://reddit.com'' @ template (permalink item)),
               title = string_or_null (raw_item.title item),
               body = string_or (selftext item) (string_or (raw_item.body item) []),
               author = string_or (raw_item.author item) ''[deleted]'',
               subreddit = raw_item.subreddit item,
               upvotes = number_or (score item) (number_or (ups item) 0),
               commentCount = number_or (num_comments item) 0,
               upvoteRatio = number_or_null (upvote_ratio item),
               flair = string_or_null (link_flair_text item),
               createdAt = created,
               scrapedAt = now,
               companyName = company,
               analysis = \<lparr>category = None, userSegment = None, impactType = None,
                            urgency = None, sentiment = None\<rparr>,
               comments = []\<rparr>)"

text \<open>\<open>xs.map(f)\<close> for an \<open>f\<close> that can throw: the first throw ends the map.\<close>

fun map_throw :: "('a \<Rightarrow> js_error + 'b) \<Rightarrow> 'a list \<Rightarrow> js_error + 'b list" where
  "map_throw f [] = Inr []"
| "map_throw f (x # xs) =
     (case f x of
        Inl e \<Rightarrow> Inl e
      | Inr y \<Rightarrow> (case map_throw f xs of Inl e \<Rightarrow> Inl e | Inr ys \<Rightarrow> Inr (y # ys)))"

subsection \<open>Pages of a listing\<close>

text \<open>
  The guard \<open>!data.data || !data.data.children || data.data.children.length === 0\<close> of
  both pagination loops. \<open>data\<close> is what \<open>fetchRedditJson\<close> returned: reading
  \<open>data.data\<close> throws a TypeError when it is \<open>undefined\<close> or \<open>null\<close>. \<open>Inr None\<close>
  is the \<open>break\<close>; otherwise the children and the cursor \<open>data.data.after\<close>.
\<close>

definition listing_page ::
  "json_body option \<Rightarrow> js_error + (child option list \<times> string field) option"
where
  "listing_page d =
     (case d of
        None \<Rightarrow> Inl TypeError
      | Some JNull \<Rightarrow> Inl TypeError
      | Some (JArray xs) \<Rightarrow> Inr None
      | Some (JObject l) \<Rightarrow>
          (case l of
             Val ld \<Rightarrow>
               (case children ld of
                  Val cs \<Rightarrow> if cs = [] then Inr None else Inr (Some (cs, after ld))
                | _ \<Rightarrow> Inr None)
           | _ \<Rightarrow> Inr None))"

definition maxFetches_of :: "nat \<Rightarrow> nat" where
  "maxFetches_of maxItems = (maxItems + 24) div 25"

subsection \<open>fetchRedditMentions\<close>

text \<open>
  The \<open>for (const child of data.data.children)\<close> of \<open>fetchRedditMentions\<close>: it pushes
  the raw post when \<open>post.created_utc >= oneDayAgoTimestamp\<close>. A \<open>null\<close> child, or a
  child without \<open>data\<close>, throws a TypeError.
\<close>

fun push_recent :: "int \<Rightarrow> child option list \<Rightarrow> raw_item list \<Rightarrow> js_error + raw_item list" where
  "push_recent ts [] allPosts = Inr allPosts"
| "push_recent ts (None # cs) allPosts = Inl TypeError"
| "push_recent ts (Some c # cs) allPosts =
     (case data c of
        Val post \<Rightarrow>
          push_recent ts cs (if js_ge (created_utc post) ts then allPosts @ [post] else allPosts)
      | _ \<Rightarrow> Inl TypeError)"

text \<open>
  The loop \<open>while (fetchCount < maxFetches && allPosts.length < maxItems)\<close>. Every
  throw leaves the function (its \<open>catch\<close> rethrows).
\<close>

function fetchRedditMentions_loop ::
  "(nat \<Rightarrow> http_response) \<Rightarrow> int \<Rightarrow> nat \<Rightarrow> nat \<Rightarrow> raw_item list \<Rightarrow> nat \<Rightarrow> world
     \<Rightarrow> (js_error + raw_item list) \<times> world"
where
  "fetchRedditMentions_loop env ts maxItems maxFetches allPosts fetchCount w =
     (if fetchCount < maxFetches \<and> length allPosts < maxItems then
        (case fetchRedditJson env default_retries w of
           (Inl e, w') \<Rightarrow> (Inl e, w')
         | (Inr d, w') \<Rightarrow>
             (case listing_page d of
                Inl e \<Rightarrow> (Inl e, w')
              | Inr None \<Rightarrow> (Inr allPosts, w')
              | Inr (Some (cs, aft)) \<Rightarrow>
                  (case push_recent ts cs allPosts of
                     Inl e \<Rightarrow> (Inl e, w')
                   | Inr allPosts' \<Rightarrow>
                       if \<not> truthy_string aft then (Inr allPosts', w')
                       else fetchRedditMentions_loop env ts maxItems maxFetches allPosts'
                              (Suc fetchCount) (sleep (Sleep RATE_LIMIT_DELAY) w'))))
      else (Inr allPosts, w))"
  by pat_completeness auto
termination
  by (relation "measure (\<lambda>(env, ts, maxItems, maxFetches, allPosts, fetchCount, w).
        maxFetches - fetchCount)") auto

declare fetchRedditMentions_loop.simps [simp del]

text \<open>
  \<open>oneDayAgoTimestamp\<close> is the clock reading \<open>ts\<close>. The option \<open>subreddits\<close> only
  changes the URL.
\<close>

definition fetchRedditMentions ::
  "(nat \<Rightarrow> http_response) \<Rightarrow> int \<Rightarrow> int \<Rightarrow> string \<Rightarrow> nat \<Rightarrow> world
     \<Rightarrow> (js_error + feedback list) \<times> world"
where
  "fetchRedditMentions env ts now company maxItems w =
     (case fetchRedditMentions_loop env ts maxItems (maxFetches_of maxItems) [] 0 w of
        (Inl e, w') \<Rightarrow> (Inl e, w')
      | (Inr allPosts, w') \<Rightarrow>
          (case map_throw (\<lambda>item. normalizeRedditItem item company now) (take maxItems allPosts) of
             Inl e \<Rightarrow> (Inl e, w')
           | Inr normalizedMentions \<Rightarrow> (Inr normalizedMentions, w')))"

subsection \<open>fetchSubredditPosts\<close>

text \<open>
  The \<open>for\<close> loop of \<open>fetchSubredditPosts\<close> pushes the normalized post. It runs inside
  the \<open>try\<close> of the loop body: when a child throws, the posts pushed before it stay in
  \<open>allPosts\<close>. The result is the error thrown, if any, and \<open>allPosts\<close>.
\<close>

fun push_normalized ::
  "int \<Rightarrow> string \<Rightarrow> int \<Rightarrow> child option list \<Rightarrow> feedback list
     \<Rightarrow> js_error option \<times> feedback list"
where
  "push_normalized ts subredditName now [] allPosts = (None, allPosts)"
| "push_normalized ts subredditName now (None # cs) allPosts = (Some TypeError, allPosts)"
| "push_normalized ts subredditName now (Some c # cs) allPosts =
     (case data c of
        Val post \<Rightarrow>
          if js_ge (created_utc post) ts then
            (case normalizeRedditItem post subredditName now of
               Inl e \<Rightarrow> (Some e, allPosts)
             | Inr r \<Rightarrow> push_normalized ts subredditName now cs (allPosts @ [r]))
          else push_normalized ts subredditName now cs allPosts
      | _ \<Rightarrow> (Some TypeError, allPosts))"

text \<open>
  The \<open>while\<close> loop. Its body is a \<open>try\<close> whose \<open>catch\<close> logs and breaks: no throw
  leaves the loop.
\<close>

function fetchSubredditPosts_loop ::
  "(nat \<Rightarrow> http_response) \<Rightarrow> int \<Rightarrow> int \<Rightarrow> string \<Rightarrow> nat \<Rightarrow> nat \<Rightarrow> feedback list \<Rightarrow> nat
     \<Rightarrow> world \<Rightarrow> feedback list \<times> world"
where
  "fetchSubredditPosts_loop env ts now subredditName maxItems maxFetches allPosts fetchCount w =
     (if fetchCount < maxFetches \<and> length allPosts < maxItems then
        (case fetchRedditJson env default_retries w of
           (Inl e, w') \<Rightarrow> (allPosts, w')
         | (Inr d, w') \<Rightarrow>
             (case listing_page d of
                Inl e \<Rightarrow> (allPosts, w')
              | Inr None \<Rightarrow> (allPosts, w')
              | Inr (Some (cs, aft)) \<Rightarrow>
                  (case push_normalized ts subredditName now cs allPosts of
                     (Some e, allPosts') \<Rightarrow> (allPosts', w')
                   | (None, allPosts') \<Rightarrow>
                       if \<not> truthy_string aft then (allPosts', w')
                       else fetchSubredditPosts_loop env ts now subredditName maxItems maxFetches
                              allPosts' (Suc fetchCount) (sleep (Sleep RATE_LIMIT_DELAY) w'))))
      else (allPosts, w))"
  by pat_completeness auto
termination
  by (relation "measure (\<lambda>(env, ts, now, subredditName, maxItems, maxFetches, allPosts,
        fetchCount, w). maxFetches - fetchCount)") auto

declare fetchSubredditPosts_loop.simps [simp del]

text \<open>
  The function is \<open>async\<close>: its caller awaits a promise. Nothing in it rejects the
  promise, so the model always answers \<open>Inr\<close>. The options \<open>sort\<close> and \<open>time\<close> only
  change the URL.
\<close>

definition fetchSubredditPosts ::
  "(nat \<Rightarrow> http_response) \<Rightarrow> int \<Rightarrow> int \<Rightarrow> string \<Rightarrow> nat \<Rightarrow> world
     \<Rightarrow> (js_error + feedback list) \<times> world"
where
  "fetchSubredditPosts env ts now subredditName maxItems w =
     (case fetchSubredditPosts_loop env ts now subredditName maxItems (maxFetches_of maxItems)
             [] 0 w of
        (allPosts, w') \<Rightarrow> (Inr (take maxItems allPosts), w'))"

subsection \<open>fetchPostComments\<close>

text \<open>
  The guard \<open>!data[1] || !data[1].data || !data[1].data.children\<close>: \<open>Inr None\<close> is
  \<open>return []\<close>. Indexing \<open>undefined\<close> or \<open>null\<close> throws a TypeError.
\<close>

definition comments_listing :: "json_body option \<Rightarrow> js_error + child option list option" where
  "comments_listing d =
     (case d of
        None \<Rightarrow> Inl TypeError
      | Some JNull \<Rightarrow> Inl TypeError
      | Some (JObject l) \<Rightarrow> Inr None
      | Some (JArray xs) \<Rightarrow>
          if length xs \<le> 1 then Inr None
          else
            (case xs ! 1 of
               JObject (Val ld) \<Rightarrow>
                 (case children ld of Val cs \<Rightarrow> Inr (Some cs) | _ \<Rightarrow> Inr None)
             | _ \<Rightarrow> Inr None))"

text \<open>\<open>.filter(child => child.kind === 't1')\<close>: reading \<open>kind\<close> of a \<open>null\<close> child throws.\<close>

fun filter_t1 :: "child option list \<Rightarrow> js_error + child list" where
  "filter_t1 [] = Inr []"
| "filter_t1 (None # cs) = Inl TypeError"
| "filter_t1 (Some c # cs) =
     (case filter_t1 cs of
        Inl e \<Rightarrow> Inl e
      | Inr ts \<Rightarrow> Inr (if kind c = Val ''t1'' then c # ts else ts))"

text \<open>The callback of \<open>.map\<close>: reading \<open>child.data.id\<close> throws when \<open>data\<close> is missing.\<close>

definition comment_of :: "child \<Rightarrow> js_error + comment" where
  "comment_of c =
     (case data c of
        Val d \<Rightarrow>
          (case isoOrNull (created_utc d) of
             Inl e \<Rightarrow> Inl e
           | Inr created \<Rightarrow>
               Inr \<lparr>id' = raw_item.id' d, body = raw_item.body d, author = raw_item.author d,
                    upvotes = number_or (score d) 0, createdAt = created\<rparr>)
      | _ \<Rightarrow> Inl TypeError)"

text \<open>The \<open>try\<close> block, then the function with its \<open>catch\<close>, which returns \<open>[]\<close>.\<close>

definition fetchPostComments_try ::
  "(nat \<Rightarrow> http_response) \<Rightarrow> world \<Rightarrow> (js_error + comment list) \<times> world"
where
  "fetchPostComments_try env w =
     (case fetchRedditJson env default_retries w of
        (Inl e, w') \<Rightarrow> (Inl e, w')
      | (Inr d, w') \<Rightarrow>
          (case comments_listing d of
             Inl e \<Rightarrow> (Inl e, w')
           | Inr None \<Rightarrow> (Inr [], w')
           | Inr (Some cs) \<Rightarrow>
               (case filter_t1 cs of
                  Inl e \<Rightarrow> (Inl e, w')
                | Inr ts \<Rightarrow> (map_throw comment_of (take 10 ts), w'))))"

definition fetchPostComments ::
  "(nat \<Rightarrow> http_response) \<Rightarrow> world \<Rightarrow> (js_error + comment list) \<times> world"
where
  "fetchPostComments env w =
     (case fetchPostComments_try env w of
        (Inl e, w') \<Rightarrow> (Inr [], w')
      | (Inr cs, w') \<Rightarrow> (Inr cs, w'))"

subsection \<open>isRelevantPost\<close>

text \<open>
  Strings are lists of bytes here; \<open>toLowerCase\<close> maps the ASCII capitals and leaves
  every other byte alone (JavaScript lowers all of Unicode; no proof below depends
  on which characters are lowered).
\<close>

definition lower_char :: "char \<Rightarrow> char" where
  "lower_char c =
     (case map_of (zip ''ABCDEFGHIJKLMNOPQRSTUVWXYZ'' ''abcdefghijklmnopqrstuvwxyz'') c of
        Some l \<Rightarrow> l
      | None \<Rightarrow> c)"

definition toLowerCase :: "string \<Rightarrow> string" where
  "toLowerCase s = map lower_char s"

text \<open>\<open>s.includes(t)\<close>: \<open>t\<close> starts at some position of \<open>s\<close>.\<close>

fun str_includes :: "string \<Rightarrow> string \<Rightarrow> bool" where
  "str_includes [] t = (t = [])"
| "str_includes (c # s) t = (take (length t) (c # s) = t \<or> str_includes s t)"

definition isRelevantPost :: "feedback \<Rightarrow> string list \<Rightarrow> bool" where
  "isRelevantPost post terms =
     (let content =
        toLowerCase ((case feedback.title post of Some s \<Rightarrow> s | None \<Rightarrow> [])
                     @ '' '' @ feedback.body post)
      in list_ex (\<lambda>term. str_includes content (toLowerCase term)) terms)"

subsection \<open>smartScrape\<close>

text \<open>
  What the discovery module (\<open>../analysis/subredditDiscovery.js\<close>) returns: the
  subreddits, each with a relevance, and the search terms.
\<close>

record subreddit_info =
  name :: string
  relevance :: string

record discovery =
  subreddits :: "subreddit_info list"
  searchTerms :: "string list"

record options =
  maxItemsPerSubreddit :: nat
  useQuickDiscovery :: bool
  filterSecondary :: bool

text \<open>
  An entry of \<open>subredditResults\<close>; the entry written by the \<open>catch\<close> has an error
  and no relevance.
\<close>

record subreddit_result =
  total :: nat
  relevant :: nat
  relevance :: "string field"
  error :: "js_error option"

text \<open>
  A mention is a post, spread into an object with the tags of \<open>smartScrape\<close>; the
  Reddit-wide fallback returns the posts without tags.
\<close>

record mention = feedback +
  discoveredSubreddit :: "bool field"
  subredditRelevance :: "string field"

record scrape_result =
  discovery :: discovery
  mentions :: "mention list"
  subredditResults :: "string \<rightharpoonup> subreddit_result"

definition untagged :: "feedback \<Rightarrow> mention" where
  "untagged post =
     feedback.extend post \<lparr>discoveredSubreddit = Undefined, subredditRelevance = Undefined\<rparr>"

text \<open>\<open>{...post, companyName, discoveredSubreddit: true, subredditRelevance: sub.relevance}\<close>\<close>

definition tagged :: "string \<Rightarrow> subreddit_info \<Rightarrow> feedback \<Rightarrow> mention" where
  "tagged company sub post =
     feedback.extend (post\<lparr>companyName := company\<rparr>)
       \<lparr>discoveredSubreddit = Val True,
        subredditRelevance = Val (subreddit_info.relevance sub)\<rparr>"

text \<open>
  Step 1. The two discovery functions are not part of this file: \<open>quick\<close> and \<open>llm\<close> are
  the outcomes of awaiting \<open>quickDiscoverSubreddits\<close> and \<open>discoverSubreddits\<close>, and
  \<open>hasKey\<close> says whether \<open>process.env.OPENAI_API_KEY\<close> is set. The \<open>catch\<close> calls
  \<open>quickDiscoverSubreddits\<close> again, outside any \<open>try\<close>.
\<close>

definition discover ::
  "options \<Rightarrow> bool \<Rightarrow> js_error + discovery \<Rightarrow> js_error + discovery \<Rightarrow> js_error + discovery"
where
  "discover opts hasKey quick llm =
     (case (if useQuickDiscovery opts \<or> \<not> hasKey then quick else llm) of
        Inr d \<Rightarrow> Inr d
      | Inl e \<Rightarrow> quick)"

text \<open>
  \<open>relevantPosts\<close>: the posts themselves, or, for a secondary subreddit when
  \<open>filterSecondary\<close> is set, \<open>posts.filter(post => isRelevantPost(post, searchTerms))\<close>.
\<close>

definition relevantPosts ::
  "options \<Rightarrow> subreddit_info \<Rightarrow> string list \<Rightarrow> feedback list \<Rightarrow> feedback list"
where
  "relevantPosts opts sub terms posts =
     (if filterSecondary opts \<and> subreddit_info.relevance sub = ''secondary''
      then filter (\<lambda>post. isRelevantPost post terms) posts
      else posts)"

text \<open>
  Step 2, the loop \<open>for (const sub of discovery.subreddits)\<close>. The state is
  \<open>allMentions\<close>, \<open>subredditResults\<close> and the world. The sleep between subreddits
  follows the \<open>try\<close>/\<open>catch\<close> on both paths.
\<close>

fun smartScrape_subs ::
  "(nat \<Rightarrow> http_response) \<Rightarrow> int \<Rightarrow> int \<Rightarrow> string \<Rightarrow> options \<Rightarrow> string list
     \<Rightarrow> subreddit_info list
     \<Rightarrow> mention list \<times> (string \<rightharpoonup> subreddit_result) \<times> world
     \<Rightarrow> mention list \<times> (string \<rightharpoonup> subreddit_result) \<times> world"
where
  "smartScrape_subs env ts now company opts terms [] st = st"
| "smartScrape_subs env ts now company opts terms (sub # subs) (allMentions, results, w) =
     (case fetchSubredditPosts env ts now (name sub) (maxItemsPerSubreddit opts) w of
        (Inr posts, w') \<Rightarrow>
          smartScrape_subs env ts now company opts terms subs
            (allMentions @ map (tagged company sub) (relevantPosts opts sub terms posts),
             results(name sub \<mapsto>
               \<lparr>total = length posts,
                relevant = length (relevantPosts opts sub terms posts),
                relevance = Val (subreddit_info.relevance sub), error = None\<rparr>),
             sleep (Sleep RATE_LIMIT_DELAY) w')
      | (Inl e, w') \<Rightarrow>
          smartScrape_subs env ts now company opts terms subs
            (allMentions,
             results(name sub \<mapsto>
               \<lparr>total = 0, relevant = 0, relevance = Undefined, error = Some e\<rparr>),
             sleep (Sleep RATE_LIMIT_DELAY) w'))"

definition smartScrape ::
  "(nat \<Rightarrow> http_response) \<Rightarrow> int \<Rightarrow> int \<Rightarrow> string \<Rightarrow> options \<Rightarrow> bool
     \<Rightarrow> js_error + discovery \<Rightarrow> js_error + discovery \<Rightarrow> world
     \<Rightarrow> (js_error + scrape_result) \<times> world"
where
  "smartScrape env ts now company opts hasKey quick llm w =
     (case discover opts hasKey quick llm of
        Inl e \<Rightarrow> (Inl e, w)
      | Inr d \<Rightarrow>
          if subreddits d = [] then
            (case fetchRedditMentions env ts now company 50 w of
               (Inl e, w') \<Rightarrow> (Inl e, w')
             | (Inr ms, w') \<Rightarrow>
                 (Inr \<lparr>discovery = \<lparr>subreddits = [], searchTerms = [company]\<rparr>,
                       mentions = map untagged ms,
                       subredditResults = Map.empty\<rparr>, w'))
          else
            (case smartScrape_subs env ts now company opts (searchTerms d) (subreddits d)
                    ([], Map.empty, w) of
               (allMentions, results, w') \<Rightarrow>
                 (Inr \<lparr>discovery = d, mentions = allMentions, subredditResults = results\<rparr>,
                  w')))"

section \<open>The Impact Score\<close>

text \<open>
  Modelled from the spec: the Synthesizer, which computes a Focus Area's impact score, is
  not among the sources; they hold the formula as text (README, dashboard tooltips) and
  the type \<open>ImpactBreakdown\<close> (frontend types). The definition follows the spec's data
  model: \<open>score = reach\<cdot>0.4 + sentiment\<cdot>0.3 + velocity\<cdot>0.3\<close>, clamped to \<open>[0, 10]\<close>, over
  the rationals.
\<close>

record weighted =
  "value" :: number
  weight :: number

record ImpactBreakdown =
  reach :: weighted
  sentiment :: weighted
  velocity :: weighted

definition breakdown :: "number \<Rightarrow> number \<Rightarrow> number \<Rightarrow> ImpactBreakdown" where
  "breakdown r s v =
     \<lparr>reach = \<lparr>value = r, weight = 4 / 10\<rparr>,
      sentiment = \<lparr>value = s, weight = 3 / 10\<rparr>,
      velocity = \<lparr>value = v, weight = 3 / 10\<rparr>\<rparr>"

definition weightedSum :: "ImpactBreakdown \<Rightarrow> number" where
  "weightedSum b =
     value (reach b) * weight (reach b)
     + value (ImpactBreakdown.sentiment b) * weight (ImpactBreakdown.sentiment b)
     + value (velocity b) * weight (velocity b)"

definition clamp :: "number \<Rightarrow> number \<Rightarrow> number \<Rightarrow> number" where
  "clamp lo hi x = max lo (min hi x)"

definition impactScore :: "number \<Rightarrow> number \<Rightarrow> number \<Rightarrow> number" where
  "impactScore r s v = clamp 0 10 (weightedSum (breakdown r s v))"

section \<open>Notions used to state the properties\<close>

text \<open>
  A record lies in the window that starts at \<open>ts\<close> (seconds) when its \<open>createdAt\<close> is a
  date at or after that start.
\<close>

definition in_window :: "int \<Rightarrow> feedback \<Rightarrow> bool" where
  "in_window ts r =
     (case feedback.createdAt r of Some ms \<Rightarrow> ts * 1000 \<le> ms | None \<Rightarrow> False)"

text \<open>
  The title and body of a post contain a search term as a substring, both lowered.
\<close>

definition contains_term :: "string list \<Rightarrow> feedback \<Rightarrow> bool" where
  "contains_term terms p =
     (\<exists>t\<in>set terms. \<exists>pre suf.
        toLowerCase ((case feedback.title p of Some s \<Rightarrow> s | None \<Rightarrow> [])
                     @ '' '' @ feedback.body p)
          = pre @ toLowerCase t @ suf)"

text \<open>
  The posts that \<open>fetchSubredditPosts\<close> returns for each subreddit of a run of the
  loop of \<open>smartScrape\<close>, in the order of the run.
\<close>

fun collected ::
  "(nat \<Rightarrow> http_response) \<Rightarrow> int \<Rightarrow> int \<Rightarrow> options \<Rightarrow> subreddit_info list \<Rightarrow> world
     \<Rightarrow> (subreddit_info \<times> feedback list) list"
where
  "collected env ts now opts [] w = []"
| "collected env ts now opts (sub # subs) w =
     (case fetchSubredditPosts env ts now (name sub) (maxItemsPerSubreddit opts) w of
        (r, w') \<Rightarrow>
          (sub, (case r of Inr posts \<Rightarrow> posts | Inl e \<Rightarrow> []))
            # collected env ts now opts subs (sleep (Sleep RATE_LIMIT_DELAY) w'))"

text \<open>
  Pagination over pages that are all served at the first attempt: page \<open>k\<close> has the
  children \<open>cs k\<close> and the cursor \<open>aft k\<close>. A child is sound when the loops process it
  without a throw: it is an object with \<open>data\<close>, and its date is in range.
\<close>

definition sound_child :: "child option \<Rightarrow> bool" where
  "sound_child c =
     (case c of
        None \<Rightarrow> False
      | Some ch \<Rightarrow>
          (case data ch of
             Val post \<Rightarrow>
               (case created_utc post of
                  Val t \<Rightarrow> \<bar>t * 1000\<bar> \<le> 8640000000000000
                | _ \<Rightarrow> True)
           | _ \<Rightarrow> False))"

text \<open>The child is pushed: its \<open>created_utc\<close> is at or after the start of the window.\<close>

definition recent :: "int \<Rightarrow> child option \<Rightarrow> bool" where
  "recent ts c =
     (case c of
        None \<Rightarrow> False
      | Some ch \<Rightarrow> (case data ch of Val post \<Rightarrow> js_ge (created_utc post) ts | _ \<Rightarrow> False))"

text \<open>The number of posts pushed from the first \<open>n\<close> pages.\<close>

definition kept_before :: "int \<Rightarrow> (nat \<Rightarrow> child option list) \<Rightarrow> nat \<Rightarrow> nat" where
  "kept_before ts cs n = (\<Sum>i<n. length (filter (recent ts) (cs i)))"

text \<open>
  After \<open>n\<close> pages a stop condition holds: \<open>n\<close> is the cap \<open>ceil(maxItems / 25)\<close>, or
  \<open>maxItems\<close> posts are collected, or the last page fetched has no children or no
  cursor.
\<close>

definition stops_at ::
  "nat \<Rightarrow> int \<Rightarrow> (nat \<Rightarrow> child option list) \<Rightarrow> (nat \<Rightarrow> string field) \<Rightarrow> nat \<Rightarrow> bool"
where
  "stops_at maxItems ts cs aft n \<longleftrightarrow>
     maxFetches_of maxItems \<le> n
     \<or> maxItems \<le> kept_before ts cs n
     \<or> (0 < n \<and> (cs (n - 1) = [] \<or> \<not> truthy_string (aft (n - 1))))"

text \<open>
  The loop, entered after \<open>k\<close> pages, ends after \<open>n \<ge> k\<close> pages, where \<open>n\<close> is the first
  point from \<open>k\<close> on at which the loop condition fails or the page just fetched is
  empty or has no cursor.
\<close>

definition ends_from ::
  "nat \<Rightarrow> int \<Rightarrow> (nat \<Rightarrow> child option list) \<Rightarrow> (nat \<Rightarrow> string field) \<Rightarrow> nat \<Rightarrow> nat \<Rightarrow> bool"
where
  "ends_from maxItems ts cs aft k n \<longleftrightarrow>
     k \<le> n
     \<and> (maxFetches_of maxItems \<le> n \<or> maxItems \<le> kept_before ts cs n
          \<or> (k < n \<and> (cs (n - 1) = [] \<or> \<not> truthy_string (aft (n - 1)))))
     \<and> (\<forall>m. k \<le> m \<and> m < n \<longrightarrow>
            \<not> (maxFetches_of maxItems \<le> m \<or> maxItems \<le> kept_before ts cs m)
            \<and> (k < m \<longrightarrow> \<not> (cs (m - 1) = [] \<or> \<not> truthy_string (aft (m - 1)))))"

section \<open>Concrete runs\<close>

text \<open>Items, pages and scripts on which the properties below are run.\<close>

definition blank_item :: raw_item where
  "blank_item =
     \<lparr>raw_item.id' = Undefined, url = Undefined, permalink = Undefined,
      raw_item.title = Undefined, selftext = Undefined, raw_item.body = Undefined,
      raw_item.author = Undefined, raw_item.subreddit = Undefined,
      score = Undefined, ups = Undefined, num_comments = Undefined,
      upvote_ratio = Undefined, link_flair_text = Undefined, created_utc = Undefined\<rparr>"

text \<open>A post with a title and a creation time, and a page answered with status 200.\<close>

definition mk_post :: "string \<Rightarrow> number \<Rightarrow> child option" where
  "mk_post t c =
     Some \<lparr>kind = Val ''t3'',
           data = Val (blank_item\<lparr>raw_item.title := Val t, created_utc := Val c\<rparr>)\<rparr>"

definition mk_page :: "child option list \<Rightarrow> string field \<Rightarrow> http_response" where
  "mk_page cs aft = Response 200 (Some (JObject (Val \<lparr>children = Val cs, after = aft\<rparr>)))"

definition start :: world where
  "start = \<lparr>requests = 0, sleeps = []\<rparr>"

text \<open>One page: a post inside the window that starts at 1000 s and one before it.\<close>

definition one_page :: "nat \<Rightarrow> http_response" where
  "one_page n = mk_page [mk_post ''new'' 2000, mk_post ''old'' 500] Undefined"

text \<open>Two answers 429, then a page.\<close>

definition limited_twice :: "nat \<Rightarrow> http_response" where
  "limited_twice n = (if n < 2 then Response 429 None else mk_page [mk_post ''new'' 2000] Undefined)"

text \<open>A timestamp whose milliseconds lie beyond the range of dates.\<close>

definition far_item :: raw_item where
  "far_item = blank_item\<lparr>created_utc := Val 8640000000001\<rparr>"

text \<open>
  The comments endpoint: \<open>[post, comments]\<close>, the second listing holding a comment
  (\<open>t1\<close>) and a post (\<open>t3\<close>).
\<close>

definition a_comment :: child where
  "a_comment =
     \<lparr>kind = Val ''t1'',
      data = Val (blank_item\<lparr>raw_item.id' := Val ''c1'', raw_item.body := Val ''nice'',
                              created_utc := Val 2000\<rparr>)\<rparr>"

definition comments_page :: "nat \<Rightarrow> http_response" where
  "comments_page n =
     Response 200 (Some (JArray
       [JObject (Val \<lparr>children = Val [mk_post ''new'' 2000], after = Undefined\<rparr>),
        JObject (Val \<lparr>children = Val [Some a_comment, mk_post ''more'' 2000],
                      after = Undefined\<rparr>)]))"

definition unreachable :: "nat \<Rightarrow> http_response" where
  "unreachable n = Rejected"

text \<open>The options' defaults.\<close>

definition default_options :: options where
  "default_options =
     \<lparr>maxItemsPerSubreddit = 100, useQuickDiscovery = False, filterSecondary = True\<rparr>"

text \<open>
  Two subreddits. Every request for the first is answered 500; the request for the
  second is answered with a page.
\<close>

definition two_subs :: discovery where
  "two_subs =
     \<lparr>subreddits = [\<lparr>name = ''a'', relevance = ''primary''\<rparr>,
                    \<lparr>name = ''b'', relevance = ''primary''\<rparr>],
      searchTerms = [''acme'']\<rparr>"

definition failing_then_ok :: "nat \<Rightarrow> http_response" where
  "failing_then_ok n =
     (if n < 3 then Response 500 None else mk_page [mk_post ''new'' 2000] Undefined)"

text \<open>A discovery without subreddits: the Reddit-wide fallback.\<close>

definition no_subs :: discovery where
  "no_subs = \<lparr>subreddits = [], searchTerms = []\<rparr>"

text \<open>
  What \<open>normalizeRedditItem\<close> makes of \<open>mk_post t c\<close> when the clock reads 0: \<open>ms\<close> is
  the time value of its date.
\<close>

definition normalized :: "string \<Rightarrow> string \<Rightarrow> int \<Rightarrow> feedback" where
  "normalized t company ms =
     \<lparr>source = ''reddit'', sourceId = Undefined,
      sourceUrl = ''https://reddit.comundefined'', title = Some t, body = [],
      author = ''[deleted]'', subreddit = Undefined, upvotes = 0, commentCount = 0,
      upvoteRatio = None, flair = None, createdAt = Some ms, scrapedAt = 0,
      companyName = company,
      analysis = \<lparr>category = None, userSegment = None, impactType = None,
                   urgency = None, sentiment = None\<rparr>,
      comments = []\<rparr>"

text \<open>
  A secondary subreddit that returns ten posts, three of which mention the search
  term, in different cases.
\<close>

definition one_secondary :: discovery where
  "one_secondary =
     \<lparr>subreddits = [\<lparr>name = ''tools'', relevance = ''secondary''\<rparr>],
      searchTerms = [''Acme'']\<rparr>"

definition ten_posts :: "nat \<Rightarrow> http_response" where
  "ten_posts n =
     mk_page
       [mk_post ''Acme is down'' 2000, mk_post ''weather'' 2000, mk_post ''cats'' 2000,
        mk_post ''I love ACME'' 2000, mk_post ''lunch'' 2000, mk_post ''music'' 2000,
        mk_post ''tea'' 2000, mk_post ''new acme plan'' 2000, mk_post ''rain'' 2000,
        mk_post ''acm'' 2000]
       Undefined"

text \<open>
  A first page whose only post is before the window that starts at 1000 s, then
  pages with a post inside it; every page has a cursor.
\<close>

definition old_then_new_children :: "nat \<Rightarrow> child option list" where
  "old_then_new_children k = (if k = 0 then [mk_post ''old'' 500] else [mk_post ''new'' 2000])"

definition old_then_new_cursor :: "nat \<Rightarrow> string field" where
  "old_then_new_cursor k = Val ''t3_next''"

definition old_then_new :: "nat \<Rightarrow> http_response" where
  "old_then_new k = mk_page (old_then_new_children k) (old_then_new_cursor k)"

section \<open>Properties\<close>

subsection \<open>The time window and the item bound\<close>

lemma trunc_nonneg: "0 \<le> t \<Longrightarrow> trunc t = \<lfloor>t\<rfloor>"
  by (simp add: trunc_def)

lemma normalize_recent:
  assumes "js_ge (created_utc post) ts" and "0 < ts"
    and "normalizeRedditItem post c now = Inr r"
  shows "in_window ts r"
proof -
  from assms(1) \<open>0 < ts\<close> obtain t where t: "created_utc post = Val t" "of_int ts \<le> t"
    by (auto simp: js_ge_def split: field.splits)
  from \<open>0 < ts\<close> have "(0::rat) < of_int ts" by simp
  with t(2) have pos: "0 < t" by linarith
  have le: "of_int (ts * 1000) \<le> t * 1000" using t(2) by simp
  then have fl: "ts * 1000 \<le> \<lfloor>t * 1000\<rfloor>" by (simp only: le_floor_iff)
  from pos have tr: "trunc (t * 1000) = \<lfloor>t * 1000\<rfloor>" by (simp add: trunc_nonneg)
  from assms(3) t(1) pos tr fl show ?thesis
    by (auto simp: normalizeRedditItem_def isoOrNull_def toISOString_def in_window_def
        split: if_splits sum.splits)
qed

lemma push_normalized_window:
  "0 < ts \<Longrightarrow> \<forall>r\<in>set allPosts. in_window ts r \<Longrightarrow>
   \<forall>r\<in>set (snd (push_normalized ts n now cs allPosts)). in_window ts r"
proof (induction ts n now cs allPosts rule: push_normalized.induct)
  case (3 ts n now c cs allPosts)
  show ?case
  proof (cases "data c")
    case (Val post)
    show ?thesis
    proof (cases "js_ge (created_utc post) ts")
      case False
      with Val 3 show ?thesis by simp
    next
      case True
      show ?thesis
      proof (cases "normalizeRedditItem post n now")
        case (Inl e)
        with Val True "3.prems" show ?thesis by simp
      next
        case (Inr r)
        from normalize_recent[OF True "3.prems"(1) Inr] "3.prems"(2)
        have "\<forall>x\<in>set (allPosts @ [r]). in_window ts x" by simp
        from "3.IH"(1)[OF Val True Inr "3.prems"(1) this] Val True Inr show ?thesis by simp
      qed
    qed
  qed (use 3 in simp_all)
qed simp_all

text \<open>An invariant of \<open>allPosts\<close> that the inner loop keeps holds when the loop ends.\<close>

lemma fetchSubredditPosts_loop_invariant:
  assumes "I allPosts"
    and "\<And>cs acc. I acc \<Longrightarrow> I (snd (push_normalized ts n now cs acc))"
  shows "I (fst (fetchSubredditPosts_loop env ts now n maxItems maxFetches allPosts fetchCount w))"
  using assms
proof (induction env ts now n maxItems maxFetches allPosts fetchCount w
    rule: fetchSubredditPosts_loop.induct)
  case (1 env ts now n maxItems maxFetches allPosts fetchCount w)
  note inv0 = "1.prems"(1) and step = "1.prems"(2)
  have st: "I acc'" if "push_normalized ts n now cs allPosts = (e, acc')" for cs e acc'
    using step[OF inv0, of cs] that by simp
  show ?case
  proof (cases "fetchCount < maxFetches \<and> length allPosts < maxItems")
    case False
    with inv0 show ?thesis by (subst fetchSubredditPosts_loop.simps) auto
  next
    case True
    obtain res w' where f: "fetchRedditJson env default_retries w = (res, w')"
      by (cases "fetchRedditJson env default_retries w")
    show ?thesis
    proof (cases "\<exists>d cs aft allPosts'. res = Inr d \<and> listing_page d = Inr (Some (cs, aft))
        \<and> push_normalized ts n now cs allPosts = (None, allPosts') \<and> truthy_string aft")
      case False
      from False True f inv0 show ?thesis
        by (subst fetchSubredditPosts_loop.simps)
           (auto split: sum.splits option.splits prod.splits dest: st)
    next
      case cont: True
      then obtain d cs aft allPosts' where c: "res = Inr d" "listing_page d = Inr (Some (cs, aft))"
        "push_normalized ts n now cs allPosts = (None, allPosts')" "truthy_string aft"
        by blast
      from st[OF c(3)] have inv: "I allPosts'" .
      have "I (fst (fetchSubredditPosts_loop env ts now n maxItems maxFetches allPosts'
                     (Suc fetchCount) (sleep (Sleep RATE_LIMIT_DELAY) w')))"
        using "1.IH"[OF True f[symmetric] c(1) c(2) refl refl c(3)[symmetric] refl _ inv step] c(4)
        by simp
      with True f c show ?thesis
        by (subst fetchSubredditPosts_loop.simps) auto
    qed
  qed
qed

lemma fetchSubredditPosts_loop_window:
  assumes "0 < ts" "\<forall>r\<in>set allPosts. in_window ts r"
  shows "\<forall>r\<in>set (fst (fetchSubredditPosts_loop env ts now n maxItems maxFetches allPosts
            fetchCount w)). in_window ts r"
proof (rule fetchSubredditPosts_loop_invariant[where I="\<lambda>ps. \<forall>r\<in>set ps. in_window ts r"])
  show "\<forall>r\<in>set allPosts. in_window ts r" by (rule assms(2))
next
  fix cs acc
  assume "\<forall>r\<in>set acc. in_window ts r"
  with assms(1) show "\<forall>r\<in>set (snd (push_normalized ts n now cs acc)). in_window ts r"
    by (rule push_normalized_window)
qed

lemma fetchSubredditPosts_Inr:
  "\<exists>posts w'. fetchSubredditPosts env ts now n maxItems w = (Inr posts, w')"
  by (simp add: fetchSubredditPosts_def split: prod.splits)

lemma fetchSubredditPosts_window:
  assumes "fetchSubredditPosts env ts now n maxItems w = (Inr posts, w')"
  shows "length posts \<le> maxItems" and "0 < ts \<Longrightarrow> \<forall>r\<in>set posts. in_window ts r"
proof -
  obtain allPosts w1 where l: "fetchSubredditPosts_loop env ts now n maxItems
      (maxFetches_of maxItems) [] 0 w = (allPosts, w1)"
    by (cases "fetchSubredditPosts_loop env ts now n maxItems (maxFetches_of maxItems) [] 0 w")
  with assms have p: "posts = take maxItems allPosts"
    by (simp add: fetchSubredditPosts_def)
  then show "length posts \<le> maxItems" by simp
  assume "0 < ts"
  from fetchSubredditPosts_loop_window[OF this, of "[]" env now n maxItems
      "maxFetches_of maxItems" 0 w] l
  have "\<forall>r\<in>set allPosts. in_window ts r" by simp
  with p show "\<forall>r\<in>set posts. in_window ts r" by (auto dest: in_set_takeD)
qed

text \<open>The same for \<open>fetchRedditMentions\<close>, whose loop keeps the raw posts.\<close>

lemma push_recent_window:
  "\<forall>p\<in>set allPosts. js_ge (created_utc p) ts \<Longrightarrow> push_recent ts cs allPosts = Inr allPosts' \<Longrightarrow>
   \<forall>p\<in>set allPosts'. js_ge (created_utc p) ts"
proof (induction ts cs allPosts rule: push_recent.induct)
  case (3 ts c cs allPosts)
  show ?case
  proof (cases "data c")
    case (Val post)
    let ?acc = "if js_ge (created_utc post) ts then allPosts @ [post] else allPosts"
    have inv: "\<forall>p\<in>set ?acc. js_ge (created_utc p) ts"
      using "3.prems"(1) by simp
    from "3.prems"(2) Val have "push_recent ts cs ?acc = Inr allPosts'"
      by (simp split del: if_split)
    with inv show ?thesis by (rule "3.IH"[OF Val])
  next
    case Undefined
    with "3.prems"(2) show ?thesis by simp
  next
    case Null
    with "3.prems"(2) show ?thesis by simp
  qed
qed simp_all

lemma fetchRedditMentions_loop_step:
  assumes "fetchCount < maxFetches" "length allPosts < maxItems"
    and "fetchRedditJson env default_retries w = (res, w1)"
  shows "fetchRedditMentions_loop env ts maxItems maxFetches allPosts fetchCount w =
     (case res of
        Inl e \<Rightarrow> (Inl e, w1)
      | Inr d \<Rightarrow>
          (case listing_page d of
             Inl e \<Rightarrow> (Inl e, w1)
           | Inr None \<Rightarrow> (Inr allPosts, w1)
           | Inr (Some (cs, aft)) \<Rightarrow>
               (case push_recent ts cs allPosts of
                  Inl e \<Rightarrow> (Inl e, w1)
                | Inr allPosts' \<Rightarrow>
                    if \<not> truthy_string aft then (Inr allPosts', w1)
                    else fetchRedditMentions_loop env ts maxItems maxFetches allPosts'
                           (Suc fetchCount) (sleep (Sleep RATE_LIMIT_DELAY) w1))))"
  using assms by (subst fetchRedditMentions_loop.simps) simp

lemma fetchRedditMentions_loop_stop:
  assumes "\<not> (fetchCount < maxFetches \<and> length allPosts < maxItems)"
  shows "fetchRedditMentions_loop env ts maxItems maxFetches allPosts fetchCount w =
     (Inr allPosts, w)"
  using assms by (subst fetchRedditMentions_loop.simps) auto

lemma fetchRedditMentions_loop_window:
  "\<forall>p\<in>set allPosts. js_ge (created_utc p) ts \<Longrightarrow>
   fetchRedditMentions_loop env ts maxItems maxFetches allPosts fetchCount w = (Inr ps, w') \<Longrightarrow>
   \<forall>p\<in>set ps. js_ge (created_utc p) ts"
proof (induction env ts maxItems maxFetches allPosts fetchCount w
    rule: fetchRedditMentions_loop.induct)
  case (1 env ts maxItems maxFetches allPosts fetchCount w)
  note inv0 = "1.prems"(1) and run = "1.prems"(2)
  show ?case
  proof (cases "fetchCount < maxFetches \<and> length allPosts < maxItems")
    case False
    from run inv0 show ?thesis by (simp add: fetchRedditMentions_loop_stop[OF False])
  next
    case True
    obtain res w1 where f: "fetchRedditJson env default_retries w = (res, w1)"
      by (cases "fetchRedditJson env default_retries w")
    note step = fetchRedditMentions_loop_step[OF conjunct1[OF True] conjunct2[OF True] f]
    show ?thesis
    proof (cases res)
      case (Inl e)
      with run step show ?thesis by simp
    next
      case d: (Inr d)
      show ?thesis
      proof (cases "listing_page d")
        case (Inl e)
        with run step d show ?thesis by simp
      next
        case pg: (Inr page)
        show ?thesis
        proof (cases page)
          case None
          with run step d pg inv0 show ?thesis by simp
        next
          case (Some p)
          obtain cs aft where p: "p = (cs, aft)" by (cases p)
          show ?thesis
          proof (cases "push_recent ts cs allPosts")
            case (Inl e)
            with run step d pg Some p show ?thesis by simp
          next
            case pr: (Inr allPosts')
            from push_recent_window[OF inv0 pr]
            have inv: "\<forall>p\<in>set allPosts'. js_ge (created_utc p) ts" .
            show ?thesis
            proof (cases "truthy_string aft")
              case False
              with run step d pg Some p pr inv show ?thesis by simp
            next
              case t: True
              with run step d pg Some p pr
              have "fetchRedditMentions_loop env ts maxItems maxFetches allPosts'
                  (Suc fetchCount) (sleep (Sleep RATE_LIMIT_DELAY) w1) = (Inr ps, w')"
                by simp
              from "1.IH"[OF True f[symmetric] d pg Some p[symmetric] pr _ inv this] t
              show ?thesis by simp
            qed
          qed
        qed
      qed
    qed
  qed
qed

lemma map_throw_Inr:
  "map_throw f xs = Inr ys \<Longrightarrow> length ys = length xs \<and> (\<forall>y\<in>set ys. \<exists>x\<in>set xs. f x = Inr y)"
proof (induction xs arbitrary: ys)
  case (Cons x xs)
  then show ?case by (auto split: sum.splits)
qed simp

lemma fetchRedditMentions_window:
  assumes "fetchRedditMentions env ts now c maxItems w = (Inr rs, w')"
  shows "length rs \<le> maxItems" and "0 < ts \<Longrightarrow> \<forall>r\<in>set rs. in_window ts r"
proof -
  from assms obtain allPosts where
    l: "fetchRedditMentions_loop env ts maxItems (maxFetches_of maxItems) [] 0 w = (Inr allPosts, w')"
    and m: "map_throw (\<lambda>item. normalizeRedditItem item c now) (take maxItems allPosts) = Inr rs"
    by (auto simp: fetchRedditMentions_def split: prod.splits sum.splits)
  from map_throw_Inr[OF m] show "length rs \<le> maxItems" by simp
  assume pos: "0 < ts"
  from fetchRedditMentions_loop_window[OF _ l] have "\<forall>p\<in>set allPosts. js_ge (created_utc p) ts"
    by simp
  then have "\<forall>p\<in>set (take maxItems allPosts). js_ge (created_utc p) ts"
    by (auto dest: in_set_takeD)
  with map_throw_Inr[OF m] pos show "\<forall>r\<in>set rs. in_window ts r"
    by (blast intro: normalize_recent)
qed

subsection \<open>Evaluating a run\<close>

text \<open>
  A run on a concrete script is evaluated by rewriting with the definitions; a
  \<open>case\<close> is entered only once its subject is a constructor.
\<close>

lemmas weak_congs = prod.case_cong_weak sum.case_cong_weak option.case_cong_weak
  http_response.case_cong_weak field.case_cong_weak json_body.case_cong_weak
  list.case_cong_weak

lemmas run_defs = fetchRedditJson_def fetchRedditJson_from.simps fetch_def sleep_def
  default_retries_def start_def mk_page_def mk_post_def blank_item_def RATE_LIMIT_DELAY_def

lemmas collect_defs = fetchSubredditPosts_def fetchSubredditPosts_loop.simps
  fetchRedditMentions_def fetchRedditMentions_loop.simps maxFetches_of_def listing_page_def
  js_ge_def truthy_string_def normalizeRedditItem_def isoOrNull_def toISOString_def trunc_def
  string_or_def string_or_null_def number_or_def number_or_null_def template_def

text \<open>
  C1. Every call of \<open>fetchRedditMentions\<close> that returns, and every call of
  \<open>fetchSubredditPosts\<close> (which always returns), yields at most \<open>maxItems\<close> records,
  and each record's \<open>createdAt\<close> is a date at or after the start of the window,
  \<open>oneDayAgoTimestamp\<close> (whole seconds; positive for any clock after 1 January 1970).
\<close>

theorem collector_bounds:
  "(\<forall>rs w'. fetchRedditMentions env ts now company maxItems w = (Inr rs, w') \<longrightarrow>
       length rs \<le> maxItems \<and> (0 < ts \<longrightarrow> (\<forall>r\<in>set rs. in_window ts r)))
   \<and> (\<exists>posts w'. fetchSubredditPosts env ts now subredditName maxItems w = (Inr posts, w')
         \<and> length posts \<le> maxItems \<and> (0 < ts \<longrightarrow> (\<forall>r\<in>set posts. in_window ts r)))"
proof (intro conjI allI impI)
  fix rs w'
  assume r: "fetchRedditMentions env ts now company maxItems w = (Inr rs, w')"
  then show "length rs \<le> maxItems" by (rule fetchRedditMentions_window(1))
  assume "0 < ts"
  with r show "\<forall>r\<in>set rs. in_window ts r" by (rule fetchRedditMentions_window(2))
next
  obtain posts w' where p: "fetchSubredditPosts env ts now subredditName maxItems w = (Inr posts, w')"
    using fetchSubredditPosts_Inr by blast
  from fetchSubredditPosts_window[OF p] p
  show "\<exists>posts w'. fetchSubredditPosts env ts now subredditName maxItems w = (Inr posts, w')
         \<and> length posts \<le> maxItems \<and> (0 < ts \<longrightarrow> (\<forall>r\<in>set posts. in_window ts r))"
    by blast
qed

theorem collector_bounds_witness:
  "(0::int) < 1000
   \<and> (\<exists>rs w'. fetchRedditMentions one_page 1000 0 ''acme'' 25 start = (Inr rs, w')
         \<and> map feedback.createdAt rs = [Some 2000000]
         \<and> length rs \<le> 25 \<and> (\<forall>r\<in>set rs. in_window 1000 r))
   \<and> (\<exists>posts w'. fetchSubredditPosts one_page 1000 0 ''pics'' 25 start = (Inr posts, w')
         \<and> map feedback.createdAt posts = [Some 2000000]
         \<and> length posts \<le> 25 \<and> (\<forall>r\<in>set posts. in_window 1000 r))"
proof -
  note c = collector_bounds[of one_page 1000 0 "''acme''" 25 start "''pics''"]
  obtain rs w1 where m: "fetchRedditMentions one_page 1000 0 ''acme'' 25 start = (Inr rs, w1)"
    and mc: "map feedback.createdAt rs = [Some 2000000]"
    by (simp add: run_defs collect_defs one_page_def cong: weak_congs)
  from c obtain posts w2 where
    p: "fetchSubredditPosts one_page 1000 0 ''pics'' 25 start = (Inr posts, w2)"
    and pb: "length posts \<le> 25" "\<forall>r\<in>set posts. in_window 1000 r"
    by auto
  from p have pc: "map feedback.createdAt posts = [Some 2000000]"
    by (simp add: run_defs collect_defs one_page_def cong: weak_congs) auto
  from c m have mb: "length rs \<le> 25" "\<forall>r\<in>set rs. in_window 1000 r" by auto
  from m mc mb p pc pb show ?thesis by simp
qed

subsection \<open>Retries\<close>

text \<open>
  C3. When a page request is answered 429 twice and then with an ok status and a JSON
  body, \<open>fetchRedditJson\<close> (with at least the default three attempts) makes three
  requests, that is two retries, sleeps the 30 s cool-down before each retry, and
  returns the body of the third answer.
\<close>

theorem fetchRedditJson_rate_limited_twice:
  assumes "3 \<le> retries"
    and "env (requests w) = Response 429 b1"
    and "env (Suc (requests w)) = Response 429 b2"
    and "env (Suc (Suc (requests w))) = Response st (Some j)"
    and "200 \<le> st" "st \<le> 299"
  shows "fetchRedditJson env retries w =
    (Inr (Some j),
     \<lparr>requests = requests w + 3,
      sleeps = sleeps w @ [Jitter, Sleep 30000, Jitter, Sleep 30000, Jitter]\<rparr>)"
proof -
  from assms(5,6) have st: "st \<noteq> 429" "st \<noteq> 403" by auto
  with assms show ?thesis
    by (simp add: fetchRedditJson_def fetchRedditJson_from.simps fetch_def sleep_def)
qed

theorem fetchRedditJson_rate_limited_twice_witness:
  "fetchRedditJson limited_twice default_retries start =
     (Inr (Some (JObject (Val \<lparr>children = Val [mk_post ''new'' 2000], after = Undefined\<rparr>))),
      \<lparr>requests = 3, sleeps = [Jitter, Sleep 30000, Jitter, Sleep 30000, Jitter]\<rparr>)"
  using fetchRedditJson_rate_limited_twice [of default_retries limited_twice start None None 200
      "JObject (Val \<lparr>children = Val [mk_post ''new'' 2000], after = Undefined\<rparr>)"]
  by (simp add: limited_twice_def default_retries_def start_def mk_page_def)

subsection \<open>normalizeRedditItem\<close>

text \<open>
  C6, as stated, fails: \<open>created_utc = 8640000000001\<close> is a number, its milliseconds
  are beyond the last valid date, and \<open>toISOString\<close> throws a RangeError.
\<close>

theorem normalizeRedditItem_throws:
  "normalizeRedditItem far_item ''acme'' 0 = Inl RangeError"
  by (simp add: normalizeRedditItem_def isoOrNull_def toISOString_def far_item_def
      blank_item_def)

text \<open>
  C6, amended. \<open>normalizeRedditItem\<close> is a function of the item, the company name and
  the clock reading. For every item whose \<open>created_utc\<close>, when present, is within the
  range of dates (at most 8.64e15 ms from the epoch), it returns a record, and every
  missing (or falsy) optional field gets its default: \<open>null\<close> for the title, the
  upvote ratio, the flair and the date, \<open>[deleted]\<close> for the author, the empty body,
  0 for the counters, and \<open>https://reddit.com\<close> followed by the permalink for the URL.
\<close>

theorem normalizeRedditItem_total:
  assumes "\<forall>t. created_utc item = Val t \<longrightarrow> \<bar>t * 1000\<bar> \<le> 8640000000000000"
  shows "\<exists>r. normalizeRedditItem item company now = Inr r
    \<and> feedback.companyName r = company
    \<and> (\<not> truthy_string (raw_item.title item) \<longrightarrow> feedback.title r = None)
    \<and> (\<not> truthy_string (raw_item.author item) \<longrightarrow> feedback.author r = ''[deleted]'')
    \<and> (\<not> truthy_string (url item) \<longrightarrow>
          sourceUrl r = ''https://reddit.com'' @ template (permalink item))
    \<and> (\<not> truthy_string (selftext item) \<and> \<not> truthy_string (raw_item.body item) \<longrightarrow>
          feedback.body r = [])
    \<and> (\<not> truthy_number (score item) \<and> \<not> truthy_number (ups item) \<longrightarrow>
          feedback.upvotes r = 0)
    \<and> (\<not> truthy_number (num_comments item) \<longrightarrow> commentCount r = 0)
    \<and> (\<not> truthy_number (upvote_ratio item) \<longrightarrow> upvoteRatio r = None)
    \<and> (\<not> truthy_string (link_flair_text item) \<longrightarrow> flair r = None)
    \<and> (\<not> truthy_number (created_utc item) \<longrightarrow> feedback.createdAt r = None)"
proof -
  have "\<exists>created. isoOrNull (created_utc item) = Inr created
      \<and> (\<not> truthy_number (created_utc item) \<longrightarrow> created = None)"
  proof (cases "created_utc item")
    case (Val t)
    with assms have "\<not> 8640000000000000 < \<bar>t * 1000\<bar>" by (simp add: not_less)
    with Val show ?thesis
      by (simp add: isoOrNull_def toISOString_def truthy_number_def)
  qed (simp_all add: isoOrNull_def truthy_number_def)
  then obtain created where c: "isoOrNull (created_utc item) = Inr created"
    and n: "\<not> truthy_number (created_utc item) \<longrightarrow> created = None"
    by blast
  have so: "\<not> truthy_string f \<Longrightarrow> string_or f d = d" for f d
    by (cases f) (simp_all add: truthy_string_def string_or_def)
  have sn: "\<not> truthy_string f \<Longrightarrow> string_or_null f = None" for f
    by (cases f) (simp_all add: truthy_string_def string_or_null_def)
  have no: "\<not> truthy_number f \<Longrightarrow> number_or f d = d" for f d
    by (cases f) (simp_all add: truthy_number_def number_or_def)
  have nn: "\<not> truthy_number f \<Longrightarrow> number_or_null f = None" for f
    by (cases f) (simp_all add: truthy_number_def number_or_null_def)
  from c n show ?thesis
    by (simp add: normalizeRedditItem_def so sn no nn)
qed

theorem normalizeRedditItem_total_witness:
  "normalizeRedditItem blank_item ''acme'' 7 =
     Inr \<lparr>source = ''reddit'', sourceId = Undefined,
          sourceUrl = ''https://reddit.comundefined'', title = None, body = [],
          author = ''[deleted]'', subreddit = Undefined, upvotes = 0, commentCount = 0,
          upvoteRatio = None, flair = None, createdAt = None, scrapedAt = 7,
          companyName = ''acme'',
          analysis = \<lparr>category = None, userSegment = None, impactType = None,
                       urgency = None, sentiment = None\<rparr>,
          comments = []\<rparr>
   \<and> (\<exists>r. normalizeRedditItem (blank_item\<lparr>created_utc := Val 2000\<rparr>) ''acme'' 7 = Inr r
         \<and> feedback.createdAt r = Some 2000000 \<and> feedback.author r = ''[deleted]'')"
proof -
  let ?item = "blank_item\<lparr>created_utc := Val 2000\<rparr>"
  have h: "\<forall>t. created_utc ?item = Val t \<longrightarrow> \<bar>t * 1000\<bar> \<le> 8640000000000000"
    by simp
  have a: "\<not> truthy_string (raw_item.author ?item)"
    by (simp add: blank_item_def truthy_string_def)
  from normalizeRedditItem_total [OF h, of "''acme''" 7] a
  obtain r where r: "normalizeRedditItem ?item ''acme'' 7 = Inr r"
    "feedback.author r = ''[deleted]''"
    by blast
  from r(1) have "feedback.createdAt r = Some 2000000"
    by (auto simp: normalizeRedditItem_def isoOrNull_def toISOString_def trunc_def)
  with r have 2: "\<exists>r. normalizeRedditItem ?item ''acme'' 7 = Inr r
         \<and> feedback.createdAt r = Some 2000000 \<and> feedback.author r = ''[deleted]''"
    by blast
  have 1: "normalizeRedditItem blank_item ''acme'' 7 =
     Inr \<lparr>source = ''reddit'', sourceId = Undefined,
          sourceUrl = ''https://reddit.comundefined'', title = None, body = [],
          author = ''[deleted]'', subreddit = Undefined, upvotes = 0, commentCount = 0,
          upvoteRatio = None, flair = None, createdAt = None, scrapedAt = 7,
          companyName = ''acme'',
          analysis = \<lparr>category = None, userSegment = None, impactType = None,
                       urgency = None, sentiment = None\<rparr>,
          comments = []\<rparr>"
    using normalizeRedditItem_total [of blank_item "''acme''" 7]
    by (simp add: normalizeRedditItem_def isoOrNull_def blank_item_def string_or_def
      string_or_null_def number_or_def number_or_null_def template_def)
  from 1 2 show ?thesis by (rule conjI)
qed

subsection \<open>The Impact Score\<close>

text \<open>
  C7. For all sub-scores the impact score is \<open>reach\<cdot>0.4 + sentiment\<cdot>0.3 + velocity\<cdot>0.3\<close>
  clamped to \<open>[0, 10]\<close>: it is that sum when the sum lies in the interval, 0 below it
  and 10 above it; and \<open>reach = 8\<close>, \<open>sentiment = 6\<close>, \<open>velocity = 4\<close> give 6.2.
\<close>

theorem impactScore_formula:
  "impactScore r s v = max 0 (min 10 (r * (4 / 10) + s * (3 / 10) + v * (3 / 10)))
   \<and> 0 \<le> impactScore r s v \<and> impactScore r s v \<le> 10
   \<and> impactScore 8 6 4 = 62 / 10"
  by (simp add: impactScore_def clamp_def weightedSum_def breakdown_def)

subsection \<open>fetchPostComments\<close>

lemma filter_t1_Inr:
  "filter_t1 cs = Inr ts \<Longrightarrow> \<forall>c\<in>set ts. kind c = Val ''t1'' \<and> Some c \<in> set cs"
proof (induction cs arbitrary: ts rule: filter_t1.induct)
  case (3 c cs)
  show ?case
  proof (cases "filter_t1 cs")
    case (Inl e)
    with "3.prems" show ?thesis by simp
  next
    case (Inr ts')
    with "3.prems" have ts: "ts = (if kind c = Val ''t1'' then c # ts' else ts')" by simp
    from "3.IH"[OF Inr] have "\<forall>c\<in>set ts'. kind c = Val ''t1'' \<and> Some c \<in> set cs" .
    with ts show ?thesis by (simp split: if_splits)
  qed
qed simp_all

text \<open>
  C10. For every script (hence every permalink), \<open>fetchPostComments\<close> returns, never
  throws, and returns at most 10 comments, each made from a child of kind \<open>t1\<close> of the
  comments listing of the response. It returns \<open>[]\<close> when the fetch fails and when the
  response has no comments listing.
\<close>

theorem fetchPostComments_safe:
  "\<exists>cs w'. fetchPostComments env w = (Inr cs, w') \<and> length cs \<le> 10
     \<and> (\<forall>c\<in>set cs. \<exists>d children ch.
           fst (fetchRedditJson env default_retries w) = Inr d
           \<and> comments_listing d = Inr (Some children)
           \<and> Some ch \<in> set children \<and> kind ch = Val ''t1'' \<and> comment_of ch = Inr c)
     \<and> ((\<exists>e. fst (fetchRedditJson env default_retries w) = Inl e) \<longrightarrow> cs = [])
     \<and> ((\<exists>d. fst (fetchRedditJson env default_retries w) = Inr d
              \<and> comments_listing d \<in> {Inr None, Inl TypeError}) \<longrightarrow> cs = [])"
proof -
  obtain res w1 where f: "fetchRedditJson env default_retries w = (res, w1)"
    by (cases "fetchRedditJson env default_retries w")
  show ?thesis
  proof (cases "\<exists>d children ts cs. res = Inr d \<and> comments_listing d = Inr (Some children)
      \<and> filter_t1 children = Inr ts \<and> map_throw comment_of (take 10 ts) = Inr cs")
    case False
    with f have "fetchPostComments env w = (Inr [], w1)"
      by (auto simp: fetchPostComments_def fetchPostComments_try_def
          split: sum.splits option.splits)
    then show ?thesis by simp
  next
    case True
    then obtain d children ts cs where t: "res = Inr d"
      "comments_listing d = Inr (Some children)" "filter_t1 children = Inr ts"
      "map_throw comment_of (take 10 ts) = Inr cs"
      by blast
    with f have r: "fetchPostComments env w = (Inr cs, w1)"
      by (simp add: fetchPostComments_def fetchPostComments_try_def)
    from map_throw_Inr[OF t(4)] have len: "length cs \<le> 10"
      and src: "\<forall>c\<in>set cs. \<exists>ch\<in>set (take 10 ts). comment_of ch = Inr c"
      by simp_all
    have "\<forall>c\<in>set cs. \<exists>ch. Some ch \<in> set children \<and> kind ch = Val ''t1''
        \<and> comment_of ch = Inr c"
    proof
      fix c assume "c \<in> set cs"
      with src obtain ch where ch: "ch \<in> set (take 10 ts)" "comment_of ch = Inr c" by blast
      from ch(1) have "ch \<in> set ts" by (rule in_set_takeD)
      with filter_t1_Inr[OF t(3)] ch(2)
      show "\<exists>ch. Some ch \<in> set children \<and> kind ch = Val ''t1'' \<and> comment_of ch = Inr c"
        by blast
    qed
    with r len f t(1,2) show ?thesis by auto
  qed
qed

theorem fetchPostComments_safe_witness:
  "fetchPostComments comments_page start =
     (Inr [\<lparr>id' = Val ''c1'', body = Val ''nice'', author = Undefined, upvotes = 0,
            createdAt = Some 2000000\<rparr>], \<lparr>requests = 1, sleeps = [Jitter]\<rparr>)
   \<and> kind a_comment = Val ''t1''
   \<and> fst (fetchRedditJson unreachable default_retries start) = Inl FetchFailed
   \<and> fst (fetchPostComments unreachable start) = Inr []"
proof -
  have 1: "fetchPostComments comments_page start =
     (Inr [\<lparr>id' = Val ''c1'', body = Val ''nice'', author = Undefined, upvotes = 0,
            createdAt = Some 2000000\<rparr>], \<lparr>requests = 1, sleeps = [Jitter]\<rparr>)"
    using fetchPostComments_safe [of comments_page start]
    by (simp add: run_defs fetchPostComments_def fetchPostComments_try_def comments_page_def
        comments_listing_def a_comment_def comment_of_def isoOrNull_def toISOString_def
        trunc_def number_or_def cong: weak_congs)
  have 2: "fst (fetchRedditJson unreachable default_retries start) = Inl FetchFailed"
    by (simp add: run_defs unreachable_def cong: weak_congs)
  with fetchPostComments_safe [of unreachable start]
  have 3: "fst (fetchPostComments unreachable start) = Inr []" by auto
  from 1 2 3 show ?thesis by (simp add: a_comment_def)
qed

subsection \<open>smartScrape\<close>

lemma take_length_eq_iff: "take (length t) xs = t \<longleftrightarrow> (\<exists>suf. xs = t @ suf)"
proof
  assume "take (length t) xs = t"
  then have "xs = t @ drop (length t) xs" by (metis append_take_drop_id)
  then show "\<exists>suf. xs = t @ suf" ..
next
  assume "\<exists>suf. xs = t @ suf"
  then show "take (length t) xs = t" by auto
qed

lemma str_includes_iff: "str_includes s t \<longleftrightarrow> (\<exists>pre suf. s = pre @ t @ suf)"
proof (induction s)
  case Nil
  show ?case by auto
next
  case (Cons c s)
  have "(\<exists>pre suf. c # s = pre @ t @ suf)
      \<longleftrightarrow> (\<exists>suf. c # s = t @ suf) \<or> (\<exists>pre suf. s = pre @ t @ suf)"
  proof
    assume "\<exists>pre suf. c # s = pre @ t @ suf"
    then obtain pre suf where e: "c # s = pre @ t @ suf" by blast
    show "(\<exists>suf. c # s = t @ suf) \<or> (\<exists>pre suf. s = pre @ t @ suf)"
    proof (cases pre)
      case Nil
      with e show ?thesis by auto
    next
      case (Cons a pre')
      with e have "s = pre' @ t @ suf" by simp
      then show ?thesis by blast
    qed
  next
    assume "(\<exists>suf. c # s = t @ suf) \<or> (\<exists>pre suf. s = pre @ t @ suf)"
    then show "\<exists>pre suf. c # s = pre @ t @ suf"
    proof
      assume "\<exists>suf. c # s = t @ suf"
      then obtain suf where "c # s = [] @ t @ suf" by auto
      then show ?thesis by blast
    next
      assume "\<exists>pre suf. s = pre @ t @ suf"
      then obtain pre suf where "c # s = (c # pre) @ t @ suf" by auto
      then show ?thesis by blast
    qed
  qed
  with Cons.IH show ?case
    by (simp only: str_includes.simps take_length_eq_iff)
qed

lemma isRelevantPost_iff: "isRelevantPost p terms \<longleftrightarrow> contains_term terms p"
  by (simp add: isRelevantPost_def contains_term_def list_ex_iff str_includes_iff)

lemma relevantPosts_spec:
  "relevantPosts opts sub terms posts =
     (if filterSecondary opts \<and> subreddit_info.relevance sub = ''secondary''
      then filter (contains_term terms) posts else posts)"
  by (simp add: relevantPosts_def isRelevantPost_iff)

lemma collected_subs: "map fst (collected env ts now opts subs w) = subs"
  by (induction subs arbitrary: w) (auto split: prod.splits)

lemma upd_add_map_of_rev:
  "rs(k \<mapsto> v) ++ map_of (rev l) = rs ++ map_of (rev ((k, v) # l))"
proof -
  have "map_of (rev ((k, v) # l)) = [k \<mapsto> v] ++ map_of (rev l)"
    by (simp only: rev.simps map_of_append) simp
  moreover have "rs ++ ([k \<mapsto> v] ++ map_of (rev l)) = (rs ++ [k \<mapsto> v]) ++ map_of (rev l)"
    by (simp only: map_add_assoc)
  moreover have "rs ++ [k \<mapsto> v] = rs(k \<mapsto> v)" by simp
  ultimately show ?thesis by simp
qed

text \<open>
  The loop appends, per subreddit, the tagged relevant posts, and writes one entry per
  subreddit; a later entry for the same name replaces an earlier one.
\<close>

lemma smartScrape_subs_run:
  "smartScrape_subs env ts now company opts terms subs (ms, rs, w) = (ms', rs', w') \<Longrightarrow>
   ms' = ms @ concat (map (\<lambda>(s, ps). map (tagged company s) (relevantPosts opts s terms ps))
                       (collected env ts now opts subs w))
   \<and> rs' = rs ++ map_of (rev (map (\<lambda>(s, ps). (name s,
                   \<lparr>total = length ps, relevant = length (relevantPosts opts s terms ps),
                    relevance = Val (subreddit_info.relevance s), error = None\<rparr>))
               (collected env ts now opts subs w)))"
proof (induction subs arbitrary: ms rs w)
  case Nil
  then show ?case by simp
next
  case (Cons sub subs)
  define entry where "entry = (\<lambda>(s, ps). (name s,
      \<lparr>total = length ps, relevant = length (relevantPosts opts s terms ps),
       relevance = Val (subreddit_info.relevance s), error = None\<rparr>))"
  define tags where
    "tags = (\<lambda>(s, ps). map (tagged company s) (relevantPosts opts s terms ps))"
  obtain posts w1 where
    f: "fetchSubredditPosts env ts now (name sub) (maxItemsPerSubreddit opts) w = (Inr posts, w1)"
    using fetchSubredditPosts_Inr by blast
  define rest where "rest = collected env ts now opts subs (sleep (Sleep RATE_LIMIT_DELAY) w1)"
  from f have c: "collected env ts now opts (sub # subs) w = (sub, posts) # rest"
    by (simp add: rest_def)
  from Cons.prems f have "smartScrape_subs env ts now company opts terms subs
      (ms @ tags (sub, posts), rs(fst (entry (sub, posts)) \<mapsto> snd (entry (sub, posts))),
       sleep (Sleep RATE_LIMIT_DELAY) w1) = (ms', rs', w')"
    by (simp add: entry_def tags_def)
  from Cons.IH[OF this]
  have ms: "ms' = (ms @ tags (sub, posts)) @ concat (map tags rest)"
    and rs: "rs' = rs(fst (entry (sub, posts)) \<mapsto> snd (entry (sub, posts)))
               ++ map_of (rev (map entry rest))"
    by (simp_all only: entry_def tags_def rest_def)
  from ms have "ms' = ms @ concat (map tags ((sub, posts) # rest))" by simp
  moreover from rs have "rs' = rs ++ map_of (rev (map entry ((sub, posts) # rest)))"
    by (simp only: upd_add_map_of_rev list.map prod.collapse)
  ultimately show ?case by (simp only: c entry_def tags_def)
qed

text \<open>
  C2. When discovery yields subreddits, the mentions are, subreddit after subreddit,
  the collected posts of a primary subreddit, all of them, and those posts of a
  secondary subreddit (with \<open>filterSecondary\<close>) whose title and body contain a search
  term, both lowered; and, the names being distinct, the entry of each subreddit
  records the number of collected posts as \<open>total\<close> and the number kept as
  \<open>relevant\<close>. The witness is the scenario of ten posts of which three mention the term.
\<close>

theorem secondary_filter:
  assumes "discover opts hasKey quick llm = Inr d" and "subreddits d \<noteq> []"
  shows "\<exists>res w'. smartScrape env ts now company opts hasKey quick llm w = (Inr res, w')
     \<and> mentions res =
         concat (map (\<lambda>(s, ps). map (tagged company s)
                        (if filterSecondary opts \<and> subreddit_info.relevance s = ''secondary''
                         then filter (contains_term (searchTerms d)) ps else ps))
                   (collected env ts now opts (subreddits d) w))
     \<and> (distinct (map name (subreddits d)) \<longrightarrow>
          (\<forall>(s, ps)\<in>set (collected env ts now opts (subreddits d) w).
             \<exists>e. subredditResults res (name s) = Some e \<and> total e = length ps
               \<and> relevant e =
                   length (if filterSecondary opts \<and> subreddit_info.relevance s = ''secondary''
                           then filter (contains_term (searchTerms d)) ps else ps)))"
proof -
  define xs where "xs = collected env ts now opts (subreddits d) w"
  define kept where "kept = (\<lambda>(s::subreddit_info) (ps::feedback list).
      if filterSecondary opts \<and> subreddit_info.relevance s = ''secondary''
      then filter (contains_term (searchTerms d)) ps else ps)"
  have kept: "relevantPosts opts s (searchTerms d) ps = kept s ps" for s ps
    by (simp only: relevantPosts_spec kept_def)
  define entry where "entry = (\<lambda>(s, ps). (name s,
      \<lparr>total = length ps, relevant = length (kept s ps),
       relevance = Val (subreddit_info.relevance s), error = None\<rparr>))"
  obtain ms rs w' where run: "smartScrape_subs env ts now company opts (searchTerms d)
      (subreddits d) ([], Map.empty, w) = (ms, rs, w')"
    by (metis prod_cases3)
  from smartScrape_subs_run[OF run]
  have ms: "ms = concat (map (\<lambda>(s, ps). map (tagged company s) (kept s ps)) xs)"
    and rs: "rs = map_of (rev (map entry xs))"
    by (simp_all add: xs_def entry_def kept)
  from assms run have res: "smartScrape env ts now company opts hasKey quick llm w =
      (Inr \<lparr>discovery = d, mentions = ms, subredditResults = rs\<rparr>, w')"
    by (simp add: smartScrape_def)
  have entries: "\<exists>e. rs (name s) = Some e \<and> total e = length ps
      \<and> relevant e = length (kept s ps)"
    if dist: "distinct (map name (subreddits d))" and mem: "(s, ps) \<in> set xs" for s ps
  proof -
    have "map fst (map entry xs) = map name (map fst xs)" by (simp add: entry_def split_def)
    with dist have "distinct (map fst (rev (map entry xs)))"
      by (simp add: xs_def collected_subs rev_map[symmetric])
    moreover from mem have "entry (s, ps) \<in> set (rev (map entry xs))" by auto
    ultimately have "map_of (rev (map entry xs)) (fst (entry (s, ps))) = Some (snd (entry (s, ps)))"
      by (metis map_of_is_SomeI prod.collapse)
    with rs show ?thesis by (simp add: entry_def)
  qed
  have "mentions \<lparr>discovery = d, mentions = ms, subredditResults = rs\<rparr> =
          concat (map (\<lambda>(s, ps). map (tagged company s) (kept s ps)) xs)
     \<and> (distinct (map name (subreddits d)) \<longrightarrow>
          (\<forall>(s, ps)\<in>set xs.
             \<exists>e. subredditResults \<lparr>discovery = d, mentions = ms, subredditResults = rs\<rparr> (name s)
                    = Some e \<and> total e = length ps \<and> relevant e = length (kept s ps)))"
    using ms entries by auto
  with res show ?thesis
    unfolding kept_def xs_def by blast
qed

lemmas scrape_defs = smartScrape_def discover_def tagged_def untagged_def feedback.defs
  default_options_def relevantPosts_def isRelevantPost_def toLowerCase_def lower_char_def

theorem secondary_filter_witness:
  "discover default_options True (Inr one_secondary) (Inr one_secondary) = Inr one_secondary
   \<and> subreddits one_secondary \<noteq> [] \<and> distinct (map name (subreddits one_secondary))
   \<and> (\<exists>res w'. smartScrape ten_posts 1000 0 ''Acme'' default_options True
                   (Inr one_secondary) (Inr one_secondary) start = (Inr res, w')
         \<and> map feedback.title (mentions res) =
             [Some ''Acme is down'', Some ''I love ACME'', Some ''new acme plan'']
         \<and> subredditResults res ''tools'' =
             Some \<lparr>total = 10, relevant = 3, relevance = Val ''secondary'', error = None\<rparr>)"
proof -
  have d: "discover default_options True (Inr one_secondary) (Inr one_secondary) = Inr one_secondary"
    by (simp add: discover_def default_options_def)
  have s: "subreddits one_secondary \<noteq> []" "distinct (map name (subreddits one_secondary))"
    by (simp_all add: one_secondary_def)
  from secondary_filter[OF d s(1), of ten_posts 1000 0 "''Acme''" start]
  obtain res w' where r: "smartScrape ten_posts 1000 0 ''Acme'' default_options True
      (Inr one_secondary) (Inr one_secondary) start = (Inr res, w')"
    by blast
  from r have "map feedback.title (mentions res) =
             [Some ''Acme is down'', Some ''I love ACME'', Some ''new acme plan'']
         \<and> subredditResults res ''tools'' =
             Some \<lparr>total = 10, relevant = 3, relevance = Val ''secondary'', error = None\<rparr>"
    by (simp add: run_defs collect_defs scrape_defs one_secondary_def ten_posts_def
        cong: weak_congs) auto
  then have "\<exists>res w'. smartScrape ten_posts 1000 0 ''Acme'' default_options True
                   (Inr one_secondary) (Inr one_secondary) start = (Inr res, w')
         \<and> map feedback.title (mentions res) =
             [Some ''Acme is down'', Some ''I love ACME'', Some ''new acme plan'']
         \<and> subredditResults res ''tools'' =
             Some \<lparr>total = 10, relevant = 3, relevance = Val ''secondary'', error = None\<rparr>"
    using r by (intro exI[of _ res] exI[of _ w']) simp
  with d s show ?thesis by (intro conjI)
qed

lemma smartScrape_subs_useQuickDiscovery:
  "smartScrape_subs env ts now company (opts\<lparr>useQuickDiscovery := b\<rparr>) terms subs st =
   smartScrape_subs env ts now company opts terms subs st"
proof (induction subs arbitrary: st)
  case Nil
  show ?case by simp
next
  case (Cons sub subs)
  obtain ms rs w where st: "st = (ms, rs, w)" by (metis prod_cases3)
  obtain posts w1 where
    f: "fetchSubredditPosts env ts now (name sub) (maxItemsPerSubreddit opts) w = (Inr posts, w1)"
    using fetchSubredditPosts_Inr by blast
  have r: "relevantPosts (opts\<lparr>useQuickDiscovery := b\<rparr>) sub terms posts =
      relevantPosts opts sub terms posts"
    by (simp add: relevantPosts_def)
  from f st r show ?case by (simp add: Cons.IH)
qed

text \<open>
  C8. A run whose LLM discovery call fails is the run with quick discovery: the error
  of the call is dropped, the heuristic's outcome takes its place, and when the
  heuristic yields subreddits the run completes with them. (The two discovery
  functions are parameters: their module is not part of the file.)
\<close>

theorem llm_failure_degrades:
  "discover opts hasKey quick (Inl e) = quick
   \<and> smartScrape env ts now company opts hasKey quick (Inl e) w =
       smartScrape env ts now company (opts\<lparr>useQuickDiscovery := True\<rparr>) hasKey quick llm w
   \<and> (\<forall>d. quick = Inr d \<longrightarrow> subreddits d \<noteq> [] \<longrightarrow>
         (\<exists>res w'. smartScrape env ts now company opts hasKey quick (Inl e) w = (Inr res, w')
            \<and> discovery res = d))"
proof (intro conjI allI impI)
  show d: "discover opts hasKey quick (Inl e) = quick"
    by (cases quick) (simp_all add: discover_def)
  have q: "discover (opts\<lparr>useQuickDiscovery := True\<rparr>) hasKey quick llm = quick"
    by (cases quick) (simp_all add: discover_def)
  show "smartScrape env ts now company opts hasKey quick (Inl e) w =
       smartScrape env ts now company (opts\<lparr>useQuickDiscovery := True\<rparr>) hasKey quick llm w"
    by (simp only: smartScrape_def d q smartScrape_subs_useQuickDiscovery)
  fix dd
  assume "quick = Inr dd" "subreddits dd \<noteq> []"
  with d show "\<exists>res w'. smartScrape env ts now company opts hasKey quick (Inl e) w = (Inr res, w')
            \<and> discovery res = dd"
    by (simp add: smartScrape_def split: prod.splits)
qed

theorem llm_failure_degrades_witness:
  "subreddits two_subs \<noteq> []
   \<and> (\<exists>res w'. smartScrape one_page 1000 0 ''acme'' default_options True (Inr two_subs)
                   (Inl FetchFailed) start = (Inr res, w')
         \<and> discovery res = two_subs \<and> length (mentions res) = 2)"
proof -
  have s: "subreddits two_subs \<noteq> []" by (simp add: two_subs_def)
  from llm_failure_degrades[of default_options True "Inr two_subs" FetchFailed one_page 1000 0
      "''acme''" start] s
  obtain res w' where r: "smartScrape one_page 1000 0 ''acme'' default_options True
      (Inr two_subs) (Inl FetchFailed) start = (Inr res, w')" "discovery res = two_subs"
    by blast
  from r(1) have "length (mentions res) = 2"
    by (simp add: run_defs collect_defs scrape_defs two_subs_def one_page_def
        cong: weak_congs) auto
  with r have "\<exists>res w'. smartScrape one_page 1000 0 ''acme'' default_options True (Inr two_subs)
                   (Inl FetchFailed) start = (Inr res, w')
         \<and> discovery res = two_subs \<and> length (mentions res) = 2"
    by (intro exI[of _ res] exI[of _ w']) simp
  with s show ?thesis by (intro conjI)
qed

subsection \<open>A failing source\<close>

text \<open>Retries are bounded: a call makes at most \<open>retries\<close> requests.\<close>

lemma fetchRedditJson_from_bounded:
  "requests (snd (fetchRedditJson_from env retries attempt w))
     \<le> requests w + (Suc retries - attempt)"
proof (induction env retries attempt w rule: fetchRedditJson_from.induct)
  case (1 env retries attempt w)
  show ?case
  proof (cases "attempt \<le> retries")
    case False
    then show ?thesis by (subst fetchRedditJson_from.simps) simp
  next
    case True
    define w1 where "w1 = snd (fetch env (sleep Jitter w))"
    have f: "fetch env (sleep Jitter w) = (env (requests w), w1)"
      by (simp add: w1_def fetch_def sleep_def)
    have rq: "requests (sleep ev w1) = Suc (requests w)" for ev
      by (simp add: w1_def fetch_def sleep_def)
    have rq0: "requests w1 = Suc (requests w)"
      by (simp add: w1_def fetch_def sleep_def)
    have next_le: "requests (snd (fetchRedditJson_from env retries (Suc attempt) (sleep ev w1)))
        \<le> requests w + (Suc retries - attempt)"
      if "requests (snd (fetchRedditJson_from env retries (Suc attempt) (sleep ev w1)))
        \<le> requests (sleep ev w1) + (Suc retries - Suc attempt)" for ev
      using that True by (simp add: rq)
    show ?thesis
    proof (cases "env (requests w)")
      case Rejected
      show ?thesis
      proof (cases "attempt = retries")
        case e: True
        with True f Rejected rq0 show ?thesis
          by (subst fetchRedditJson_from.simps) simp
      next
        case ne: False
        from "1.IH"(1)[OF True f[symmetric] Rejected ne]
        have "requests (snd (fetchRedditJson_from env retries (Suc attempt)
            (sleep (Sleep 5000) w1))) \<le> requests w + (Suc retries - attempt)"
          by (rule next_le)
        with True f Rejected ne show ?thesis
          by (subst fetchRedditJson_from.simps) simp
      qed
    next
      case (Response st b)
      consider (limited) "st = 429" | (blocked) "st \<noteq> 429" "st = 403"
        | (bad) "st \<noteq> 429" "st \<noteq> 403" "\<not> (200 \<le> st \<and> st \<le> 299)"
        | (ok) "st \<noteq> 429" "st \<noteq> 403" "200 \<le> st \<and> st \<le> 299"
        by blast
      then show ?thesis
      proof cases
        case limited
        from "1.IH"(2)[OF True f[symmetric] Response limited]
        have "requests (snd (fetchRedditJson_from env retries (Suc attempt)
            (sleep (Sleep 30000) w1))) \<le> requests w + (Suc retries - attempt)"
          by (rule next_le)
        with True f Response limited show ?thesis
          by (subst fetchRedditJson_from.simps) simp
      next
        case blocked
        from "1.IH"(3)[OF True f[symmetric] Response blocked]
        have "requests (snd (fetchRedditJson_from env retries (Suc attempt)
            (sleep (Sleep 10000) w1))) \<le> requests w + (Suc retries - attempt)"
          by (rule next_le)
        with True f Response blocked show ?thesis
          by (subst fetchRedditJson_from.simps) simp
      next
        case bad
        show ?thesis
        proof (cases "attempt = retries")
          case e: True
          with True f Response bad rq0 show ?thesis
            by (subst fetchRedditJson_from.simps) simp
        next
          case ne: False
          from "1.IH"(4)[OF True f[symmetric] Response bad ne]
          have "requests (snd (fetchRedditJson_from env retries (Suc attempt)
              (sleep (Sleep 5000) w1))) \<le> requests w + (Suc retries - attempt)"
            by (rule next_le)
          with True f Response bad ne show ?thesis
            by (subst fetchRedditJson_from.simps) simp
        qed
      next
        case ok
        with True f Response rq0 show ?thesis
          by (subst fetchRedditJson_from.simps) (auto split: option.splits)
      qed
    qed
  qed
qed

lemma fetchRedditJson_bounded:
  "requests (snd (fetchRedditJson env retries w)) \<le> requests w + retries"
  using fetchRedditJson_from_bounded[of env retries 1 w] by (simp add: fetchRedditJson_def)

text \<open>
  The \<open>catch\<close> of the loop of \<open>smartScrape\<close> is never entered, as \<open>fetchSubredditPosts\<close>
  catches every error itself: no entry of \<open>subredditResults\<close> has an error.
\<close>

lemma subredditResults_no_error:
  assumes "smartScrape env ts now company opts hasKey quick llm w = (Inr res, w')"
    and "subredditResults res n = Some entry"
  shows "error entry = None"
proof -
  from assms(1) obtain d where d: "discover opts hasKey quick llm = Inr d"
    by (auto simp: smartScrape_def split: sum.splits)
  show ?thesis
  proof (cases "subreddits d = []")
    case True
    with assms d show ?thesis
      by (auto simp: smartScrape_def split: prod.splits sum.splits)
  next
    case False
    obtain ms rs w1 where run: "smartScrape_subs env ts now company opts (searchTerms d)
        (subreddits d) ([], Map.empty, w) = (ms, rs, w1)"
      by (metis prod_cases3)
    with assms(1) d False have "subredditResults res = rs"
      by (auto simp: smartScrape_def)
    with smartScrape_subs_run[OF run] assms(2)
    have "map_of (rev (map (\<lambda>(s, ps). (name s,
                   \<lparr>total = length ps, relevant = length (relevantPosts opts s (searchTerms d) ps),
                    relevance = Val (subreddit_info.relevance s), error = None\<rparr>))
               (collected env ts now opts (subreddits d) w))) n = Some entry"
      by simp
    then have "(n, entry) \<in> set (rev (map (\<lambda>(s, ps). (name s,
                   \<lparr>total = length ps, relevant = length (relevantPosts opts s (searchTerms d) ps),
                    relevance = Val (subreddit_info.relevance s), error = None\<rparr>))
               (collected env ts now opts (subreddits d) w)))"
      by (rule map_of_SomeD)
    then show ?thesis by auto
  qed
qed

text \<open>
  C4, on the code. Every request for subreddit \<open>a\<close> is answered 500: after three
  attempts \<open>fetchRedditJson\<close> throws, \<open>fetchSubredditPosts\<close> catches the error and
  returns no posts, and the entry of \<open>a\<close> is \<open>{total: 0, relevant: 0}\<close> with no error.
  The run goes on with subreddit \<open>b\<close>.
\<close>

theorem failing_source_entry:
  "smartScrape failing_then_ok 1000 0 ''acme'' default_options True (Inr two_subs)
      (Inr two_subs) start =
   (Inr \<lparr>discovery = two_subs,
         mentions = [tagged ''acme'' \<lparr>name = ''b'', relevance = ''primary''\<rparr>
                       (normalized ''new'' ''b'' 2000000)],
         subredditResults =
           [''a'' \<mapsto> \<lparr>total = 0, relevant = 0, relevance = Val ''primary'', error = None\<rparr>,
            ''b'' \<mapsto> \<lparr>total = 1, relevant = 1, relevance = Val ''primary'', error = None\<rparr>]\<rparr>,
    \<lparr>requests = 4,
     sleeps = [Jitter, Sleep 5000, Jitter, Sleep 5000, Jitter, Sleep 2000,
               Jitter, Sleep 2000]\<rparr>)"
  by (simp add: run_defs collect_defs scrape_defs two_subs_def failing_then_ok_def
      normalized_def cong: weak_congs)

subsection \<open>The per-subreddit results\<close>

text \<open>A run that scrapes subreddits, written out: its discovery, mentions and entries.\<close>

lemma smartScrape_run:
  assumes "discover opts hasKey quick llm = Inr d" and "subreddits d \<noteq> []"
  shows "\<exists>w'. smartScrape env ts now company opts hasKey quick llm w =
    (Inr \<lparr>discovery = d,
          mentions = concat (map (\<lambda>(s, ps). map (tagged company s)
                                (relevantPosts opts s (searchTerms d) ps))
                       (collected env ts now opts (subreddits d) w)),
          subredditResults = map_of (rev (map (\<lambda>(s, ps). (name s,
                   \<lparr>total = length ps,
                    relevant = length (relevantPosts opts s (searchTerms d) ps),
                    relevance = Val (subreddit_info.relevance s), error = None\<rparr>))
               (collected env ts now opts (subreddits d) w)))\<rparr>, w')"
proof -
  obtain ms rs w' where run: "smartScrape_subs env ts now company opts (searchTerms d)
      (subreddits d) ([], Map.empty, w) = (ms, rs, w')"
    by (metis prod_cases3)
  from smartScrape_subs_run[OF run] assms run show ?thesis
    by (simp add: smartScrape_def)
qed

lemma map_of_rev_distinct:
  assumes "distinct (map fst l)" and "(k, v) \<in> set l"
  shows "map_of (rev l) k = Some v"
proof -
  from assms(1) have "distinct (map fst (rev l))" by (simp add: rev_map[symmetric])
  moreover from assms(2) have "(k, v) \<in> set (rev l)" by simp
  ultimately show ?thesis by (rule map_of_is_SomeI)
qed

text \<open>
  C9, as stated, fails: when discovery yields no subreddit, \<open>smartScrape\<close> returns the
  posts of the Reddit-wide search as mentions, and \<open>subredditResults\<close> is empty.
\<close>

theorem fallback_mentions:
  "smartScrape one_page 1000 0 ''acme'' default_options True (Inr no_subs) (Inr no_subs) start =
     (Inr \<lparr>discovery = \<lparr>subreddits = [], searchTerms = [''acme'']\<rparr>,
           mentions = [untagged (normalized ''new'' ''acme'' 2000000)],
           subredditResults = Map.empty\<rparr>,
      \<lparr>requests = 1, sleeps = [Jitter]\<rparr>)"
  by (simp add: run_defs collect_defs scrape_defs no_subs_def one_page_def normalized_def
      cong: weak_congs)

text \<open>
  C9, amended. Every entry of \<open>subredditResults\<close> without an error has
  \<open>relevant \<le> total\<close>, and \<open>relevant = total\<close> when its relevance is not \<open>secondary\<close> or
  \<open>filterSecondary\<close> is off. When discovery yields at least one subreddit, the mentions
  are, subreddit after subreddit, the tagged relevant posts; and, the names being
  distinct, each subreddit's entry counts its relevant posts, so that the number of
  mentions is the sum of \<open>relevant\<close> over the entries.
\<close>

theorem subreddit_results_invariant:
  assumes "smartScrape env ts now company opts hasKey quick llm w = (Inr res, w')"
  shows "(\<forall>n e. subredditResults res n = Some e \<longrightarrow> error e = None \<longrightarrow>
            relevant e \<le> total e
            \<and> (subreddit_result.relevance e \<noteq> Val ''secondary'' \<or> \<not> filterSecondary opts
                 \<longrightarrow> relevant e = total e))
     \<and> (subreddits (discovery res) \<noteq> [] \<longrightarrow>
          mentions res =
            concat (map (\<lambda>(s, ps). map (tagged company s)
                           (relevantPosts opts s (searchTerms (discovery res)) ps))
                      (collected env ts now opts (subreddits (discovery res)) w))
          \<and> (distinct (map name (subreddits (discovery res))) \<longrightarrow>
               (\<forall>(s, ps)\<in>set (collected env ts now opts (subreddits (discovery res)) w).
                  \<exists>e. subredditResults res (name s) = Some e
                    \<and> relevant e = length (relevantPosts opts s (searchTerms (discovery res)) ps))
               \<and> length (mentions res) =
                   (\<Sum>n\<in>dom (subredditResults res). relevant (the (subredditResults res n)))))"
proof -
  from assms obtain d where d: "discover opts hasKey quick llm = Inr d"
    by (auto simp: smartScrape_def split: sum.splits)
  show ?thesis
  proof (cases "subreddits d = []")
    case True
    with assms d have "subredditResults res = Map.empty" "subreddits (discovery res) = []"
      by (auto simp: smartScrape_def split: prod.splits sum.splits)
    then show ?thesis by simp
  next
    case False
    define xs where "xs = collected env ts now opts (subreddits d) w"
    define kept where "kept = (\<lambda>(s::subreddit_info) (ps::feedback list).
        relevantPosts opts s (searchTerms d) ps)"
    define entry where "entry = (\<lambda>(s, ps). (name s,
        \<lparr>total = length ps, relevant = length (kept s ps),
         relevance = Val (subreddit_info.relevance s), error = None\<rparr>))"
    define rs where "rs = map_of (rev (map entry xs))"
    define ms where "ms = concat (map (\<lambda>(s, ps). map (tagged company s) (kept s ps)) xs)"
    from smartScrape_run[OF d False, of env ts now company w] assms
    have res: "res = \<lparr>discovery = d, mentions = ms, subredditResults = rs\<rparr>"
      by (auto simp: xs_def kept_def entry_def rs_def ms_def)
    have fst_xs: "map fst xs = subreddits d"
      by (simp only: xs_def collected_subs)
    have "map fst (map entry xs) = map name (map fst xs)"
      by (simp add: entry_def split_def)
    with fst_xs have names: "map fst (map entry xs) = map name (subreddits d)"
      by (simp only:)
    have inv: "relevant e \<le> total e
        \<and> (subreddit_result.relevance e \<noteq> Val ''secondary'' \<or> \<not> filterSecondary opts
             \<longrightarrow> relevant e = total e)"
      if "rs n = Some e" for n e
    proof -
      from that have "(n, e) \<in> set (rev (map entry xs))"
        unfolding rs_def by (rule map_of_SomeD)
      then have "(n, e) \<in> entry ` set xs" by simp
      then obtain x where "(n, e) = entry x" by blast
      then have "e = snd (entry (fst x, snd x))" by (metis prod.collapse snd_conv)
      then obtain s ps where e: "e = snd (entry (s, ps))" by blast
      have "length (kept s ps) \<le> length ps"
        by (simp add: kept_def relevantPosts_def)
      moreover have "kept s ps = ps"
        if "subreddit_info.relevance s \<noteq> ''secondary'' \<or> \<not> filterSecondary opts"
        using that by (auto simp: kept_def relevantPosts_def)
      ultimately show ?thesis by (auto simp: e entry_def)
    qed
    have entries: "rs (name s) = Some (snd (entry (s, ps)))"
      if "distinct (map name (subreddits d))" "(s, ps) \<in> set xs" for s ps
    proof -
      from that(1) names have "distinct (map fst (map entry xs))" by simp
      moreover from that(2) have "(name s, snd (entry (s, ps))) \<in> set (map entry xs)"
        by (force simp: entry_def)
      ultimately show ?thesis unfolding rs_def by (rule map_of_rev_distinct)
    qed
    have sum: "length ms = (\<Sum>n\<in>dom rs. relevant (the (rs n)))"
      if dist: "distinct (map name (subreddits d))"
    proof -
      define ns where "ns = map name (subreddits d)"
      have "dom rs = fst ` set (rev (map entry xs))"
        unfolding rs_def by (rule dom_map_of_conv_image_fst)
      also have "\<dots> = set (map fst (map entry xs))" by (simp only: set_rev set_map)
      finally have "dom rs = set ns" by (simp only: names ns_def)
      moreover from dist have "distinct ns" by (simp only: ns_def)
      ultimately have "(\<Sum>n\<in>dom rs. relevant (the (rs n)))
          = sum_list (map (\<lambda>n. relevant (the (rs n))) ns)"
        by (simp only: sum_list_distinct_conv_sum_set)
      then have "(\<Sum>n\<in>dom rs. relevant (the (rs n)))
          = sum_list (map (\<lambda>n. relevant (the (rs n))) (map name (subreddits d)))"
        by (simp only: ns_def)
      also have "map name (subreddits d) = map (\<lambda>x. name (fst x)) xs"
        by (simp only: fst_xs[symmetric] map_map comp_def)
      also have "map (\<lambda>n. relevant (the (rs n))) (map (\<lambda>x. name (fst x)) xs)
          = map (\<lambda>x. length (kept (fst x) (snd x))) xs"
      proof (rule list.map_cong0[THEN trans[OF map_map], unfolded comp_def])
        fix x assume "x \<in> set xs"
        then have "(fst x, snd x) \<in> set xs" by simp
        from entries[OF dist this] show "relevant (the (rs (name (fst x))))
            = length (kept (fst x) (snd x))"
          by (simp add: entry_def split_def)
      qed
      also have "sum_list (map (\<lambda>x. length (kept (fst x) (snd x))) xs) = length ms"
        by (simp add: ms_def length_concat comp_def split_def)
      finally show ?thesis by simp
    qed
    have ent: "\<forall>(s, ps)\<in>set xs. \<exists>e. rs (name s) = Some e \<and> relevant e = length (kept s ps)"
      if dist: "distinct (map name (subreddits d))"
      using entries[OF dist] by (auto simp: entry_def)
    from inv sum ent False show ?thesis
      unfolding res by (simp add: ms_def xs_def kept_def)
  qed
qed

theorem subreddit_results_invariant_witness:
  "\<exists>res w'. smartScrape ten_posts 1000 0 ''Acme'' default_options True
                 (Inr one_secondary) (Inr one_secondary) start = (Inr res, w')
      \<and> subreddits (discovery res) \<noteq> []
      \<and> distinct (map name (subreddits (discovery res)))
      \<and> subredditResults res ''tools'' =
           Some \<lparr>total = 10, relevant = 3, relevance = Val ''secondary'', error = None\<rparr>
      \<and> length (mentions res) = 3
      \<and> (\<Sum>n\<in>dom (subredditResults res). relevant (the (subredditResults res n))) = 3"
proof -
  have d: "discover default_options True (Inr one_secondary) (Inr one_secondary) = Inr one_secondary"
    by (simp add: discover_def default_options_def)
  have s: "subreddits one_secondary \<noteq> []" by (simp add: one_secondary_def)
  from smartScrape_run[OF d s, of ten_posts 1000 0 "''Acme''" start]
  obtain res w' where r: "smartScrape ten_posts 1000 0 ''Acme'' default_options True
      (Inr one_secondary) (Inr one_secondary) start = (Inr res, w')"
    and dr: "discovery res = one_secondary"
    by force
  from dr have ds: "subreddits (discovery res) \<noteq> []"
      "distinct (map name (subreddits (discovery res)))"
    by (simp_all add: one_secondary_def)
  from r have ev: "subredditResults res ''tools'' =
           Some \<lparr>total = 10, relevant = 3, relevance = Val ''secondary'', error = None\<rparr>"
      "length (mentions res) = 3"
    by (simp add: run_defs collect_defs scrape_defs one_secondary_def ten_posts_def
        cong: weak_congs, auto)+
  from subreddit_results_invariant[OF r] ds ev(2)
  have "(\<Sum>n\<in>dom (subredditResults res). relevant (the (subredditResults res n))) = 3"
    by simp
  with r ds ev show ?thesis by (intro exI[of _ res] exI[of _ w']) simp
qed

subsection \<open>When pagination stops\<close>

text \<open>
  C5, as stated, fails. With \<open>maxItems = 26\<close> the cap is two pages. The only post of the
  first page is before the window, and the second page is fetched all the same.
  After the second page the cursor is present, one post of 26 is collected and the
  page's post is inside the window, and pagination stops: the cap is reached.
\<close>

theorem pagination_counterexample:
  "fetchSubredditPosts old_then_new 1000 0 ''pics'' 26 start =
     (Inr [normalized ''new'' ''pics'' 2000000],
      \<lparr>requests = 2, sleeps = [Jitter, Sleep 2000, Jitter, Sleep 2000]\<rparr>)
   \<and> fetchRedditMentions old_then_new 1000 0 ''acme'' 26 start =
     (Inr [normalized ''new'' ''acme'' 2000000],
      \<lparr>requests = 2, sleeps = [Jitter, Sleep 2000, Jitter, Sleep 2000]\<rparr>)"
  by (simp add: run_defs collect_defs old_then_new_def old_then_new_children_def
      old_then_new_cursor_def normalized_def cong: weak_congs)

lemma fetchRedditJson_served:
  "fetchRedditJson (\<lambda>k. mk_page (cs k) (aft k)) default_retries w =
     (Inr (Some (JObject (Val \<lparr>children = Val (cs (requests w)), after = aft (requests w)\<rparr>))),
      \<lparr>requests = Suc (requests w), sleeps = sleeps w @ [Jitter]\<rparr>)"
  by (simp add: fetchRedditJson_def fetchRedditJson_from.simps fetch_def sleep_def
      default_retries_def mk_page_def)

lemma listing_page_served:
  "listing_page (Some (JObject (Val \<lparr>children = Val cs, after = a\<rparr>))) =
     (if cs = [] then Inr None else Inr (Some (cs, a)))"
  by (simp add: listing_page_def)

lemma normalize_in_range:
  assumes "\<forall>t. created_utc item = Val t \<longrightarrow> \<bar>t * 1000\<bar> \<le> 8640000000000000"
  shows "\<exists>r. normalizeRedditItem item c now = Inr r"
proof (cases "created_utc item")
  case (Val t)
  with assms have "\<not> 8640000000000000 < \<bar>t * 1000\<bar>" by (simp add: not_less)
  with Val show ?thesis
    by (simp add: normalizeRedditItem_def isoOrNull_def toISOString_def)
qed (simp_all add: normalizeRedditItem_def isoOrNull_def)

lemma push_normalized_sound:
  "\<forall>c\<in>set cs. sound_child c \<Longrightarrow>
   \<exists>acc'. push_normalized ts n now cs acc = (None, acc')
     \<and> length acc' = length acc + length (filter (recent ts) cs)"
proof (induction cs arbitrary: acc)
  case Nil
  show ?case by simp
next
  case (Cons c cs)
  from Cons.prems have sc: "sound_child c" and rest: "\<forall>c\<in>set cs. sound_child c" by simp_all
  from sc obtain ch post where c: "c = Some ch" "data ch = Val post"
    and rng: "\<forall>t. created_utc post = Val t \<longrightarrow> \<bar>t * 1000\<bar> \<le> 8640000000000000"
    by (auto simp: sound_child_def split: option.splits field.splits)
  show ?case
  proof (cases "js_ge (created_utc post) ts")
    case False
    with c have "push_normalized ts n now (c # cs) acc = push_normalized ts n now cs acc"
      and "\<not> recent ts c"
      by (simp_all add: recent_def)
    with Cons.IH[OF rest, of acc] show ?thesis by simp
  next
    case True
    from normalize_in_range[OF rng] obtain r where r: "normalizeRedditItem post n now = Inr r"
      by blast
    with c True have "push_normalized ts n now (c # cs) acc
        = push_normalized ts n now cs (acc @ [r])"
      and "recent ts c"
      by (simp_all add: recent_def)
    with Cons.IH[OF rest, of "acc @ [r]"] show ?thesis by simp
  qed
qed

lemma push_recent_sound:
  "\<forall>c\<in>set cs. sound_child c \<Longrightarrow>
   \<exists>acc'. push_recent ts cs acc = Inr acc'
     \<and> length acc' = length acc + length (filter (recent ts) cs)"
proof (induction cs arbitrary: acc)
  case Nil
  show ?case by simp
next
  case (Cons c cs)
  from Cons.prems have sc: "sound_child c" and rest: "\<forall>c\<in>set cs. sound_child c" by simp_all
  from sc obtain ch post where c: "c = Some ch" "data ch = Val post"
    by (auto simp: sound_child_def split: option.splits field.splits)
  let ?acc = "if js_ge (created_utc post) ts then acc @ [post] else acc"
  from c have "push_recent ts (c # cs) acc = push_recent ts cs ?acc"
    by (simp split del: if_split)
  moreover from c have "length ?acc + length (filter (recent ts) cs)
      = length acc + length (filter (recent ts) (c # cs))"
    by (simp add: recent_def)
  ultimately show ?case using Cons.IH[OF rest, of ?acc] by (simp split del: if_split)
qed

lemma ends_from_here:
  "maxFetches_of maxItems \<le> k \<or> maxItems \<le> kept_before ts cs k \<Longrightarrow>
   ends_from maxItems ts cs aft k k"
  by (simp add: ends_from_def)

lemma ends_from_page:
  "\<not> (maxFetches_of maxItems \<le> k \<or> maxItems \<le> kept_before ts cs k) \<Longrightarrow>
   cs k = [] \<or> \<not> truthy_string (aft k) \<Longrightarrow>
   ends_from maxItems ts cs aft k (Suc k)"
  by (auto simp: ends_from_def less_Suc_eq)

lemma ends_from_next:
  assumes "\<not> (maxFetches_of maxItems \<le> k \<or> maxItems \<le> kept_before ts cs k)"
    and "\<not> (cs k = [] \<or> \<not> truthy_string (aft k))"
    and "ends_from maxItems ts cs aft (Suc k) n"
  shows "ends_from maxItems ts cs aft k n"
  unfolding ends_from_def
proof (intro conjI allI impI)
  from assms(3) show "k \<le> n" by (simp add: ends_from_def)
  from assms(3) show "maxFetches_of maxItems \<le> n \<or> maxItems \<le> kept_before ts cs n
      \<or> (k < n \<and> (cs (n - 1) = [] \<or> \<not> truthy_string (aft (n - 1))))"
    by (auto simp: ends_from_def)
next
  fix m assume m: "k \<le> m \<and> m < n"
  show "\<not> (maxFetches_of maxItems \<le> m \<or> maxItems \<le> kept_before ts cs m)"
  proof (cases "m = k")
    case True
    with assms(1) show ?thesis by simp
  next
    case False
    with m have "Suc k \<le> m \<and> m < n" by simp
    with assms(3) show ?thesis unfolding ends_from_def by blast
  qed
  assume km: "k < m"
  show "\<not> (cs (m - 1) = [] \<or> \<not> truthy_string (aft (m - 1)))"
  proof (cases "m = Suc k")
    case True
    with assms(2) show ?thesis by simp
  next
    case False
    with km m have "Suc k \<le> m \<and> m < n" "Suc k < m" by simp_all
    with assms(3) show ?thesis unfolding ends_from_def by blast
  qed
qed

lemma kept_before_Suc:
  "kept_before ts cs (Suc k) = kept_before ts cs k + length (filter (recent ts) (cs k))"
  by (simp add: kept_before_def)

lemma fetchSubredditPosts_loop_ends:
  assumes "\<forall>k. \<forall>c\<in>set (cs k). sound_child c"
    and "requests w = fetchCount"
    and "length allPosts = kept_before ts cs fetchCount"
  shows "ends_from maxItems ts cs aft fetchCount
     (requests (snd (fetchSubredditPosts_loop (\<lambda>k. mk_page (cs k) (aft k)) ts now n maxItems
        (maxFetches_of maxItems) allPosts fetchCount w)))"
  using assms(2,3)
proof (induction "maxFetches_of maxItems - fetchCount" arbitrary: fetchCount allPosts w)
  case 0
  then have "\<not> (fetchCount < maxFetches_of maxItems \<and> length allPosts < maxItems)" by simp
  then have "fetchSubredditPosts_loop (\<lambda>k. mk_page (cs k) (aft k)) ts now n maxItems
      (maxFetches_of maxItems) allPosts fetchCount w = (allPosts, w)"
    by (subst fetchSubredditPosts_loop.simps) auto
  moreover from 0 have "maxFetches_of maxItems \<le> fetchCount" by simp
  ultimately show ?case using "0.prems"(1) by (simp add: ends_from_here)
next
  case (Suc d)
  let ?env = "\<lambda>k. mk_page (cs k) (aft k)"
  let ?k = fetchCount
  define w1 where "w1 = \<lparr>requests = Suc (requests w), sleeps = sleeps w @ [Jitter]\<rparr>"
  have fj: "fetchRedditJson ?env default_retries w =
     (Inr (Some (JObject (Val \<lparr>children = Val (cs ?k), after = aft ?k\<rparr>))), w1)"
    using Suc.prems(1) by (simp add: fetchRedditJson_served w1_def)
  have rq1: "requests w1 = Suc ?k" using Suc.prems(1) by (simp add: w1_def)
  show ?case
  proof (cases "maxItems \<le> kept_before ts cs ?k")
    case True
    with Suc.prems(2) have "\<not> (fetchCount < maxFetches_of maxItems \<and> length allPosts < maxItems)"
      by simp
    then have "fetchSubredditPosts_loop ?env ts now n maxItems
        (maxFetches_of maxItems) allPosts fetchCount w = (allPosts, w)"
      by (subst fetchSubredditPosts_loop.simps) auto
    with True Suc.prems(1) show ?thesis by (simp add: ends_from_here)
  next
    case False
    from Suc.hyps(2) have lt: "fetchCount < maxFetches_of maxItems" by simp
    from False Suc.prems(2) have len: "length allPosts < maxItems" by simp
    from lt False have go: "\<not> (maxFetches_of maxItems \<le> ?k \<or> maxItems \<le> kept_before ts cs ?k)"
      by simp
    from push_normalized_sound[of "cs ?k" ts n now allPosts] assms(1)
    obtain allPosts' where pn: "push_normalized ts n now (cs ?k) allPosts = (None, allPosts')"
      and len': "length allPosts' = length allPosts + length (filter (recent ts) (cs ?k))"
      by blast
    show ?thesis
    proof (cases "cs ?k = [] \<or> \<not> truthy_string (aft ?k)")
      case True
      with lt len fj pn have "snd (fetchSubredditPosts_loop ?env ts now n maxItems
          (maxFetches_of maxItems) allPosts fetchCount w) = w1"
        by (subst fetchSubredditPosts_loop.simps) (auto simp: listing_page_served)
      with ends_from_page[of maxItems fetchCount ts cs aft, OF go True] rq1 show ?thesis by simp
    next
      case False
      with lt len fj pn have step: "fetchSubredditPosts_loop ?env ts now n maxItems
          (maxFetches_of maxItems) allPosts fetchCount w =
          fetchSubredditPosts_loop ?env ts now n maxItems (maxFetches_of maxItems) allPosts'
            (Suc fetchCount) (sleep (Sleep RATE_LIMIT_DELAY) w1)"
        by (subst fetchSubredditPosts_loop.simps) (auto simp: listing_page_served)
      have "ends_from maxItems ts cs aft (Suc fetchCount)
         (requests (snd (fetchSubredditPosts_loop ?env ts now n maxItems
            (maxFetches_of maxItems) allPosts' (Suc fetchCount)
            (sleep (Sleep RATE_LIMIT_DELAY) w1))))"
      proof (rule Suc.hyps(1))
        from Suc.hyps(2) show "d = maxFetches_of maxItems - Suc fetchCount" by simp
        from rq1 show "requests (sleep (Sleep RATE_LIMIT_DELAY) w1) = Suc fetchCount"
          by (simp add: sleep_def)
        from len' Suc.prems(2) show "length allPosts' = kept_before ts cs (Suc fetchCount)"
          by (simp add: kept_before_Suc)
      qed
      with step ends_from_next[of maxItems fetchCount ts cs aft, OF go False] show ?thesis by simp
    qed
  qed
qed

lemma fetchRedditMentions_loop_ends:
  assumes "\<forall>k. \<forall>c\<in>set (cs k). sound_child c"
    and "requests w = fetchCount"
    and "length allPosts = kept_before ts cs fetchCount"
  shows "ends_from maxItems ts cs aft fetchCount
     (requests (snd (fetchRedditMentions_loop (\<lambda>k. mk_page (cs k) (aft k)) ts maxItems
        (maxFetches_of maxItems) allPosts fetchCount w)))"
  using assms(2,3)
proof (induction "maxFetches_of maxItems - fetchCount" arbitrary: fetchCount allPosts w)
  case 0
  then have "\<not> (fetchCount < maxFetches_of maxItems \<and> length allPosts < maxItems)" by simp
  from fetchRedditMentions_loop_stop[OF this] 0 show ?case by (simp add: ends_from_here)
next
  case (Suc d)
  let ?env = "\<lambda>k. mk_page (cs k) (aft k)"
  let ?k = fetchCount
  define w1 where "w1 = \<lparr>requests = Suc (requests w), sleeps = sleeps w @ [Jitter]\<rparr>"
  have fj: "fetchRedditJson ?env default_retries w =
     (Inr (Some (JObject (Val \<lparr>children = Val (cs ?k), after = aft ?k\<rparr>))), w1)"
    using Suc.prems(1) by (simp add: fetchRedditJson_served w1_def)
  have rq1: "requests w1 = Suc ?k" using Suc.prems(1) by (simp add: w1_def)
  show ?case
  proof (cases "maxItems \<le> kept_before ts cs ?k")
    case True
    with Suc.prems(2) have "\<not> (fetchCount < maxFetches_of maxItems \<and> length allPosts < maxItems)"
      by simp
    from fetchRedditMentions_loop_stop[OF this] True Suc.prems(1) show ?thesis
      by (simp add: ends_from_here)
  next
    case False
    from Suc.hyps(2) have lt: "fetchCount < maxFetches_of maxItems" by simp
    from False Suc.prems(2) have len: "length allPosts < maxItems" by simp
    from lt False have go: "\<not> (maxFetches_of maxItems \<le> ?k \<or> maxItems \<le> kept_before ts cs ?k)"
      by simp
    note step = fetchRedditMentions_loop_step[OF lt len fj, of ts]
    from push_recent_sound[of "cs ?k" ts allPosts] assms(1)
    obtain allPosts' where pn: "push_recent ts (cs ?k) allPosts = Inr allPosts'"
      and len': "length allPosts' = length allPosts + length (filter (recent ts) (cs ?k))"
      by blast
    show ?thesis
    proof (cases "cs ?k = [] \<or> \<not> truthy_string (aft ?k)")
      case True
      with step pn have "snd (fetchRedditMentions_loop ?env ts maxItems
          (maxFetches_of maxItems) allPosts fetchCount w) = w1"
        by (auto simp: listing_page_served)
      with ends_from_page[of maxItems fetchCount ts cs aft, OF go True] rq1 show ?thesis
        by simp
    next
      case False
      with step pn have st: "fetchRedditMentions_loop ?env ts maxItems
          (maxFetches_of maxItems) allPosts fetchCount w =
          fetchRedditMentions_loop ?env ts maxItems (maxFetches_of maxItems) allPosts'
            (Suc fetchCount) (sleep (Sleep RATE_LIMIT_DELAY) w1)"
        by (auto simp: listing_page_served)
      have "ends_from maxItems ts cs aft (Suc fetchCount)
         (requests (snd (fetchRedditMentions_loop ?env ts maxItems
            (maxFetches_of maxItems) allPosts' (Suc fetchCount)
            (sleep (Sleep RATE_LIMIT_DELAY) w1))))"
      proof (rule Suc.hyps(1))
        from Suc.hyps(2) show "d = maxFetches_of maxItems - Suc fetchCount" by simp
        from rq1 show "requests (sleep (Sleep RATE_LIMIT_DELAY) w1) = Suc fetchCount"
          by (simp add: sleep_def)
        from len' Suc.prems(2) show "length allPosts' = kept_before ts cs (Suc fetchCount)"
          by (simp add: kept_before_Suc)
      qed
      with st ends_from_next[of maxItems fetchCount ts cs aft, OF go False] show ?thesis
        by simp
    qed
  qed
qed

lemma ends_from_start:
  "ends_from maxItems ts cs aft 0 n \<Longrightarrow>
   stops_at maxItems ts cs aft n \<and> (\<forall>m<n. \<not> stops_at maxItems ts cs aft m)"
  by (auto simp: ends_from_def stops_at_def)

lemma fetchRedditMentions_world:
  "snd (fetchRedditMentions env ts now company maxItems w) =
   snd (fetchRedditMentions_loop env ts maxItems (maxFetches_of maxItems) [] 0 w)"
  by (simp add: fetchRedditMentions_def split: prod.splits sum.splits)

lemma fetchSubredditPosts_world:
  "snd (fetchSubredditPosts env ts now n maxItems w) =
   snd (fetchSubredditPosts_loop env ts now n maxItems (maxFetches_of maxItems) [] 0 w)"
  by (simp add: fetchSubredditPosts_def split: prod.splits)

text \<open>
  C5, amended. On a run whose requests are all answered at once with a well-formed
  page, each of the two loops requests \<open>n\<close> pages, where \<open>n\<close> is the first number of
  pages at which a stop condition holds: \<open>n\<close> is the cap \<open>ceil(maxItems / 25)\<close>, or
  \<open>maxItems\<close> posts of the window are collected, or the page just fetched has no
  children or no cursor. Posts before the window are skipped; they do not end
  pagination.
\<close>

theorem pagination_stops:
  assumes "\<forall>k. \<forall>c\<in>set (cs k). sound_child c"
  shows "(let n = requests (snd (fetchSubredditPosts (\<lambda>k. mk_page (cs k) (aft k)) ts now
                     subredditName maxItems start))
          in stops_at maxItems ts cs aft n \<and> (\<forall>m<n. \<not> stops_at maxItems ts cs aft m))
     \<and> (let n = requests (snd (fetchRedditMentions (\<lambda>k. mk_page (cs k) (aft k)) ts now
                     company maxItems start))
          in stops_at maxItems ts cs aft n \<and> (\<forall>m<n. \<not> stops_at maxItems ts cs aft m))"
proof -
  have s: "requests start = 0" "length ([]::feedback list) = kept_before ts cs 0"
    "length ([]::raw_item list) = kept_before ts cs 0"
    by (simp_all add: start_def kept_before_def)
  from fetchSubredditPosts_loop_ends[OF assms s(1) s(2), of maxItems aft now subredditName]
  have 1: "ends_from maxItems ts cs aft 0
      (requests (snd (fetchSubredditPosts (\<lambda>k. mk_page (cs k) (aft k)) ts now
                     subredditName maxItems start)))"
    by (simp only: fetchSubredditPosts_world)
  from fetchRedditMentions_loop_ends[OF assms s(1) s(3), of maxItems aft]
  have 2: "ends_from maxItems ts cs aft 0
      (requests (snd (fetchRedditMentions (\<lambda>k. mk_page (cs k) (aft k)) ts now
                     company maxItems start)))"
    by (simp only: fetchRedditMentions_world)
  from ends_from_start[OF 1] ends_from_start[OF 2] show ?thesis
    by (simp only: Let_def) blast
qed

theorem pagination_stops_witness:
  "requests (snd (fetchSubredditPosts old_then_new 1000 0 ''pics'' 26 start)) = 2
   \<and> requests (snd (fetchRedditMentions old_then_new 1000 0 ''acme'' 26 start)) = 2
   \<and> sound_child (mk_post ''old'' 500) \<and> sound_child (mk_post ''new'' 2000)
   \<and> stops_at 26 1000 old_then_new_children old_then_new_cursor 2
   \<and> \<not> stops_at 26 1000 old_then_new_children old_then_new_cursor 1
   \<and> \<not> stops_at 26 1000 old_then_new_children old_then_new_cursor 0"
proof -
  have sc: "sound_child (mk_post ''old'' 500)" "sound_child (mk_post ''new'' 2000)"
    by (simp_all add: sound_child_def mk_post_def blank_item_def)
  then have h: "\<forall>k. \<forall>c\<in>set (old_then_new_children k). sound_child c"
    by (simp add: old_then_new_children_def)
  have env: "(\<lambda>k. mk_page (old_then_new_children k) (old_then_new_cursor k)) = old_then_new"
    by (simp add: old_then_new_def fun_eq_iff)
  have n1: "requests (snd (fetchSubredditPosts old_then_new 1000 0 ''pics'' 26 start)) = 2"
    by (simp add: run_defs collect_defs old_then_new_def old_then_new_children_def
      old_then_new_cursor_def cong: weak_congs)
  have n2: "requests (snd (fetchRedditMentions old_then_new 1000 0 ''acme'' 26 start)) = 2"
    by (simp add: run_defs collect_defs old_then_new_def old_then_new_children_def
      old_then_new_cursor_def cong: weak_congs)
  from pagination_stops[OF h, of old_then_new_cursor 1000 0 "''pics''" 26 "''acme''"]
  have "stops_at 26 1000 old_then_new_children old_then_new_cursor 2
      \<and> (\<forall>m<2. \<not> stops_at 26 1000 old_then_new_children old_then_new_cursor m)"
    by (simp only: env n1 Let_def) simp
  then have "stops_at 26 1000 old_then_new_children old_then_new_cursor 2"
    "\<not> stops_at 26 1000 old_then_new_children old_then_new_cursor 1"
    "\<not> stops_at 26 1000 old_then_new_children old_then_new_cursor 0"
    by simp_all
  with n1 n2 sc show ?thesis by (intro conjI)
qed

end
